theory Spec2Isabelle
  imports Main
begin

section \<open>Data model\<close>

text \<open>
  Times are JavaScript timestamps: milliseconds since the epoch, as \<open>Date.now()\<close> returns
  them. Every handler call receives the clock reading \<open>now\<close> of that request; the few
  clock reads one request makes are taken to return the same instant.
\<close>

type_synonym time = int

text \<open>The account row of the credential store, with the columns the handlers select.\<close>

record user =
  user_id :: string
  email :: string
  passwordHash :: string
  role :: string
  firstName :: string
  lastName :: string
  isActive :: bool
  lockedUntil :: "time option"
  failedLoginAttempts :: int
  emailVerified :: bool
  lastLoginAt :: "time option"

text \<open>\<open>TokenPayload\<close> without \<open>iat\<close> and \<open>exp\<close>: what the handlers put into a token.\<close>

record payload =
  userId :: string
  tok_email :: string
  tok_role :: string
  sessionId :: string

text \<open>
  A signed token. The signature is represented by the secret it was made with; the two
  configured secrets are distinct, and \<open>ForeignSecret\<close> stands for any other key.
  \<open>tok_iat\<close> and \<open>tok_exp\<close> are in seconds, as in a JWT.
\<close>

datatype secret = AccessSecret | RefreshSecret | ForeignSecret

record jwt =
  signedWith :: secret
  claims :: payload
  tok_iat :: int
  tok_exp :: int
  iss :: string
  aud :: string

text \<open>What a cookie or header can carry: a string that parses as a JWT, or any other string.\<close>

datatype token = Jwt jwt | Garbage string

text \<open>Errors that the handlers throw or that reach them from the libraries.\<close>

datatype error =
    AppError string nat string
  | TokenExpiredError
  | JsonWebTokenError
  | RedisError
  | PrismaError string

text \<open>The value stored under \<open>session:<id>\<close>.\<close>

record session_data =
  sd_userId :: string
  createdAt :: time
  sd_ip :: "string option"
  sd_userAgent :: "string option"

text \<open>
  The shared stores. Redis keys are built from the three prefixes \<open>session:\<close>,
  \<open>blacklist:session:\<close> and \<open>ratelimit:\<close>, which never collide, so each prefix is a
  store of its own, indexed by the rest of the key; an entry carries the instant at which
  Redis expires it. \<open>redisDown\<close> and \<open>dbDown\<close> say that a store rejects every call.
\<close>

record world =
  users :: "user list"
  sessions :: "string \<rightharpoonup> session_data \<times> time"
  blacklist :: "string \<rightharpoonup> time"
  ratelimit :: "string \<rightharpoonup> int \<times> time option"
  redisDown :: bool
  dbDown :: bool

datatype event =
    BcryptCompare string string
  | SecurityLog string
  | AuditEvent string string

datatype cookie_effect = NoCookies | SetAuthCookies token token | ClearAuthCookies

text \<open>What a route handler leaves behind: the response or the error, and its effects.\<close>

record 'a outcome =
  result :: "error + 'a"
  cookies :: cookie_effect
  events :: "event list"
  world_after :: world

section \<open>Configuration (config/security.config.ts)\<close>

definition maxLoginAttempts :: int where
  "maxLoginAttempts = 5"

definition lockoutDuration :: int where
  "lockoutDuration = 30 * 60 * 1000"

definition jwt_issuer :: string where
  "jwt_issuer = ''secureshop-api''"

definition jwt_audience :: string where
  "jwt_audience = ''secureshop-client''"

text \<open>The default lifetimes \<open>15m\<close> and \<open>7d\<close>, in seconds.\<close>

definition accessToken_expiresIn :: int where
  "accessToken_expiresIn = 15 * 60"

definition refreshToken_expiresIn :: int where
  "refreshToken_expiresIn = 7 * 24 * 60 * 60"

section \<open>Credential store (Prisma)\<close>

definition findUniqueByEmail :: "world \<Rightarrow> string \<Rightarrow> error + user option" where
  "findUniqueByEmail s e =
     (if dbDown s then Inl (PrismaError ''unreachable'')
      else Inr (find (\<lambda>u. email u = e) (users s)))"

definition findUniqueById :: "world \<Rightarrow> string \<Rightarrow> error + user option" where
  "findUniqueById s i =
     (if dbDown s then Inl (PrismaError ''unreachable'')
      else Inr (find (\<lambda>u. user_id u = i) (users s)))"

text \<open>
  \<open>prisma.user.update({where: {id}, data})\<close>: rejects with P2025 when no row has the id,
  and rewrites the row otherwise (ids are unique in the table: the rows with the id are
  that one row).
\<close>

definition user_update :: "world \<Rightarrow> string \<Rightarrow> (user \<Rightarrow> user) \<Rightarrow> error + world" where
  "user_update s i f =
     (if dbDown s then Inl (PrismaError ''unreachable'')
      else if \<not> list_ex (\<lambda>u. user_id u = i) (users s) then Inl (PrismaError ''P2025'')
      else Inr (s\<lparr>users := map (\<lambda>u. if user_id u = i then f u else u) (users s)\<rparr>))"

section \<open>Rate limiter (utils/redis.ts)\<close>

record rate_result =
  allowed :: bool
  remaining :: int
  resetAt :: time

text \<open>The counter Redis holds under a key at an instant: none once the entry has expired.\<close>

definition rl_get :: "world \<Rightarrow> time \<Rightarrow> string \<Rightarrow> (int \<times> time option) option" where
  "rl_get s now k =
     (case ratelimit s k of
        None \<Rightarrow> None
      | Some (c, None) \<Rightarrow> Some (c, None)
      | Some (c, Some t) \<Rightarrow> if now < t then Some (c, Some t) else None)"

text \<open>\<open>INCR\<close>: a missing key counts from zero and gets no expiry; a live one keeps its expiry.\<close>

definition redis_incr :: "world \<Rightarrow> time \<Rightarrow> string \<Rightarrow> int \<times> world" where
  "redis_incr s now k =
     (case rl_get s now k of
        None \<Rightarrow> (1, s\<lparr>ratelimit := (ratelimit s)(k \<mapsto> (1, None))\<rparr>)
      | Some (c, e) \<Rightarrow> (c + 1, s\<lparr>ratelimit := (ratelimit s)(k \<mapsto> (c + 1, e))\<rparr>))"

text \<open>\<open>TTL\<close>: -2 for a missing key, -1 for one without expiry, else the seconds left, rounded.\<close>

definition redis_ttl :: "world \<Rightarrow> time \<Rightarrow> string \<Rightarrow> int" where
  "redis_ttl s now k =
     (case rl_get s now k of
        None \<Rightarrow> - 2
      | Some (c, None) \<Rightarrow> - 1
      | Some (c, Some t) \<Rightarrow> (t - now + 500) div 1000)"

text \<open>\<open>EXPIRE\<close>: a timeout that is not positive deletes the key.\<close>

definition redis_expire :: "world \<Rightarrow> time \<Rightarrow> string \<Rightarrow> int \<Rightarrow> world" where
  "redis_expire s now k secs =
     (case rl_get s now k of
        None \<Rightarrow> s
      | Some (c, e) \<Rightarrow>
          if secs \<le> 0 then s\<lparr>ratelimit := (ratelimit s)(k := None)\<rparr>
          else s\<lparr>ratelimit := (ratelimit s)(k \<mapsto> (c, Some (now + secs * 1000)))\<rparr>)"

definition checkRateLimit ::
  "world \<Rightarrow> time \<Rightarrow> string \<Rightarrow> int \<Rightarrow> int \<Rightarrow> error + rate_result \<times> world" where
  "checkRateLimit s now key maxAttempts windowSeconds =
     (if redisDown s then Inl RedisError
      else
        let fullKey = ''ratelimit:'' @ key;
            (count, s1) = redis_incr s now fullKey;
            ttl = redis_ttl s1 now fullKey;
            s2 = (if ttl = - 1 then redis_expire s1 now fullKey windowSeconds else s1);
            remaining = max 0 (maxAttempts - count);
            resetAt = now + (if ttl > 0 then ttl else windowSeconds) * 1000
        in Inr (\<lparr>allowed = count \<le> maxAttempts, remaining = remaining, resetAt = resetAt\<rparr>, s2))"

section \<open>Token service (middleware/auth.middleware.ts)\<close>

definition generateAccessToken :: "time \<Rightarrow> payload \<Rightarrow> token" where
  "generateAccessToken now p =
     Jwt \<lparr>signedWith = AccessSecret, claims = p, tok_iat = now div 1000,
          tok_exp = now div 1000 + accessToken_expiresIn, iss = jwt_issuer, aud = jwt_audience\<rparr>"

definition generateRefreshToken :: "time \<Rightarrow> payload \<Rightarrow> token" where
  "generateRefreshToken now p =
     Jwt \<lparr>signedWith = RefreshSecret, claims = p, tok_iat = now div 1000,
          tok_exp = now div 1000 + refreshToken_expiresIn, iss = jwt_issuer, aud = jwt_audience\<rparr>"

text \<open>
  \<open>jwt.verify(token, secret, {issuer, audience})\<close> of the jsonwebtoken library, by its
  contract: a string that is no JWT and a signature made with another key are a
  \<open>JsonWebTokenError\<close>; then the expiry is compared with the clock in whole seconds
  (\<open>TokenExpiredError\<close>); then audience and issuer are compared.
\<close>

definition jwt_verify :: "secret \<Rightarrow> time \<Rightarrow> token \<Rightarrow> error + payload" where
  "jwt_verify k now t =
     (case t of
        Garbage _ \<Rightarrow> Inl JsonWebTokenError
      | Jwt j \<Rightarrow>
          if signedWith j \<noteq> k then Inl JsonWebTokenError
          else if tok_exp j \<le> now div 1000 then Inl TokenExpiredError
          else if aud j \<noteq> jwt_audience then Inl JsonWebTokenError
          else if iss j \<noteq> jwt_issuer then Inl JsonWebTokenError
          else Inr (claims j))"

definition verifyAccessToken :: "time \<Rightarrow> token \<Rightarrow> error + payload" where
  "verifyAccessToken now t = jwt_verify AccessSecret now t"

definition verifyRefreshToken :: "time \<Rightarrow> token \<Rightarrow> error + payload" where
  "verifyRefreshToken now t = jwt_verify RefreshSecret now t"

text \<open>JavaScript's \<open>!token\<close>: the cookie is absent or the empty string.\<close>

definition no_token :: "token option \<Rightarrow> bool" where
  "no_token c = (case c of None \<Rightarrow> True | Some t \<Rightarrow> t = Garbage [])"

section \<open>Session registry and revocation ledger\<close>

text \<open>\<open>redis.get(`session:${id}`)\<close>.\<close>

definition session_get :: "world \<Rightarrow> time \<Rightarrow> string \<Rightarrow> error + session_data option" where
  "session_get s now sid =
     (if redisDown s then Inl RedisError
      else Inr (case sessions s sid of
                  None \<Rightarrow> None
                | Some (d, t) \<Rightarrow> if now < t then Some d else None))"

text \<open>\<open>redis.setex(`session:${id}`, ttl, data)\<close>.\<close>

definition session_setex ::
  "world \<Rightarrow> time \<Rightarrow> string \<Rightarrow> int \<Rightarrow> session_data \<Rightarrow> error + world" where
  "session_setex s now sid ttl d =
     (if redisDown s then Inl RedisError
      else Inr (s\<lparr>sessions := (sessions s)(sid \<mapsto> (d, now + ttl * 1000))\<rparr>))"

text \<open>\<open>redis.del(`session:${id}`)\<close>.\<close>

definition session_del :: "world \<Rightarrow> string \<Rightarrow> error + world" where
  "session_del s sid =
     (if redisDown s then Inl RedisError
      else Inr (s\<lparr>sessions := (sessions s)(sid := None)\<rparr>))"

definition isSessionBlacklisted :: "world \<Rightarrow> time \<Rightarrow> string \<Rightarrow> error + bool" where
  "isSessionBlacklisted s now sid =
     (if redisDown s then Inl RedisError
      else Inr (case blacklist s sid of None \<Rightarrow> False | Some t \<Rightarrow> now < t))"

text \<open>The default \<open>expiresIn\<close> of seven days is the only one the callers use.\<close>

definition blacklistSession :: "world \<Rightarrow> time \<Rightarrow> string \<Rightarrow> error + world" where
  "blacklistSession s now sid =
     (if redisDown s then Inl RedisError
      else Inr (s\<lparr>blacklist := (blacklist s)(sid \<mapsto> now + (7 * 24 * 60 * 60) * 1000)\<rparr>))"

section \<open>Login (controllers/auth.controller.ts)\<close>

text \<open>
  The login request as the validation middleware hands it on (the email address in lower
  case and trimmed, \<open>rememberMe\<close> defaulted), with \<open>req.ip\<close> and the user-agent header.
\<close>

record login_request =
  body_email :: string
  body_password :: string
  rememberMe :: bool
  req_ip :: "string option"
  req_userAgent :: "string option"

record login_response =
  res_id :: string
  res_email :: string
  res_firstName :: string
  res_lastName :: string
  res_role :: string
  res_emailVerified :: bool

definition login_body :: "user \<Rightarrow> login_response" where
  "login_body u =
     \<lparr>res_id = user_id u, res_email = email u, res_firstName = firstName u,
      res_lastName = lastName u, res_role = role u, res_emailVerified = emailVerified u\<rparr>"

definition failed :: "error \<Rightarrow> cookie_effect \<Rightarrow> event list \<Rightarrow> world \<Rightarrow> 'a outcome" where
  "failed e c evs s = \<lparr>result = Inl e, cookies = c, events = evs, world_after = s\<rparr>"

definition genericError :: error where
  "genericError = AppError ''Invalid email or password'' 401 ''INVALID_CREDENTIALS''"

definition rateLimitedError :: error where
  "rateLimitedError = AppError ''Too many login attempts. Please try again later.'' 429 ''RATE_LIMITED''"

definition accountLockedError :: error where
  "accountLockedError =
     AppError ''Account is temporarily locked. Please try again later.'' 403 ''ACCOUNT_LOCKED''"

definition dummy_hash :: string where
  "dummy_hash = ''$2a$12$dummy.hash.for.timing.attack.prevention''"

text \<open>\<open>req.ip || 'unknown'\<close>.\<close>

definition clientIp_of :: "string option \<Rightarrow> string" where
  "clientIp_of ip = (case ip of None \<Rightarrow> ''unknown'' | Some a \<Rightarrow> if a = [] then ''unknown'' else a)"

text \<open>\<open>user.lockedUntil && user.lockedUntil > new Date()\<close>.\<close>

definition locked_at :: "time \<Rightarrow> user \<Rightarrow> bool" where
  "locked_at now u = (case lockedUntil u of None \<Rightarrow> False | Some t \<Rightarrow> now < t)"

text \<open>
  The handler is written in three parts, cut where the source awaits the account row and
  where the password has been accepted. \<open>bcrypt_compare\<close> is the library's
  \<open>bcrypt.compare\<close>, \<open>uuid\<close> the value \<open>randomUUID()\<close> returns in this call.
\<close>

definition login_success ::
  "world \<Rightarrow> time \<Rightarrow> string \<Rightarrow> login_request \<Rightarrow> string \<Rightarrow> user \<Rightarrow> login_response outcome" where
  "login_success s now uuid rq clientIp u =
     (let compared = [BcryptCompare (body_password rq) (passwordHash u)] in
      case (if failedLoginAttempts u > 0
            then user_update s (user_id u) (\<lambda>r. r\<lparr>failedLoginAttempts := 0, lockedUntil := None\<rparr>)
            else Inr s) of
        Inl e \<Rightarrow> failed e NoCookies compared s
      | Inr s1 \<Rightarrow>
          let tokenPayload = \<lparr>userId = user_id u, tok_email = email u, tok_role = role u,
                              sessionId = uuid\<rparr>;
              accessToken = generateAccessToken now tokenPayload;
              refreshToken = generateRefreshToken now tokenPayload
          in (case session_setex s1 now uuid
                     (if rememberMe rq then 30 * 24 * 60 * 60 else 24 * 60 * 60)
                     \<lparr>sd_userId = user_id u, createdAt = now, sd_ip = Some clientIp,
                      sd_userAgent = req_userAgent rq\<rparr> of
                Inl e \<Rightarrow> failed e NoCookies compared s1
              | Inr s2 \<Rightarrow>
                  (case user_update s2 (user_id u) (\<lambda>r. r\<lparr>lastLoginAt := Some now\<rparr>) of
                     Inl e \<Rightarrow> failed e (SetAuthCookies accessToken refreshToken) compared s2
                   | Inr s3 \<Rightarrow>
                       \<lparr>result = Inr (login_body u),
                        cookies = SetAuthCookies accessToken refreshToken,
                        events = compared @ [AuditEvent ''auth.login'' (user_id u)],
                        world_after = s3\<rparr>)))"

definition login_known ::
  "(string \<Rightarrow> string \<Rightarrow> bool) \<Rightarrow> world \<Rightarrow> time \<Rightarrow> string \<Rightarrow> login_request \<Rightarrow> string \<Rightarrow> user
     \<Rightarrow> login_response outcome" where
  "login_known bcrypt_compare s now uuid rq clientIp u =
     (if locked_at now u then
        failed accountLockedError NoCookies [SecurityLog ''Login attempt on locked account''] s
      else if \<not> isActive u then
        failed (AppError ''Account is deactivated'' 403 ''ACCOUNT_DEACTIVATED'') NoCookies [] s
      else if \<not> bcrypt_compare (body_password rq) (passwordHash u) then
        (let failedAttempts = failedLoginAttempts u + 1;
             shouldLock = (failedAttempts \<ge> maxLoginAttempts);
             compared = [BcryptCompare (body_password rq) (passwordHash u)]
         in case user_update s (user_id u)
                   (\<lambda>r. r\<lparr>failedLoginAttempts := failedAttempts,
                           lockedUntil := (if shouldLock then Some (now + lockoutDuration)
                                           else None)\<rparr>) of
              Inl e \<Rightarrow> failed e NoCookies compared s
            | Inr s1 \<Rightarrow>
                failed genericError NoCookies
                  (compared @ [SecurityLog ''Failed login attempt'',
                               AuditEvent ''auth.failed_login'' (user_id u)]) s1)
      else login_success s now uuid rq clientIp u)"

definition login ::
  "(string \<Rightarrow> string \<Rightarrow> bool) \<Rightarrow> world \<Rightarrow> time \<Rightarrow> string \<Rightarrow> login_request
     \<Rightarrow> login_response outcome" where
  "login bcrypt_compare s now uuid rq =
     (let clientIp = clientIp_of (req_ip rq);
          rateLimitKey = ''login:'' @ clientIp @ '':'' @ body_email rq
      in case checkRateLimit s now rateLimitKey 5 (15 * 60) of
           Inl e \<Rightarrow> failed e NoCookies [] s
         | Inr (rateLimit, s1) \<Rightarrow>
             if \<not> allowed rateLimit then
               failed rateLimitedError NoCookies [SecurityLog ''Login rate limit exceeded''] s1
             else
               (case findUniqueByEmail s1 (body_email rq) of
                  Inl e \<Rightarrow> failed e NoCookies [] s1
                | Inr None \<Rightarrow>
                    failed genericError NoCookies
                      [BcryptCompare (body_password rq) dummy_hash] s1
                | Inr (Some u) \<Rightarrow> login_known bcrypt_compare s1 now uuid rq clientIp u))"

section \<open>Refresh and logout (controllers/auth.controller.ts)\<close>

record refresh_request =
  cookie_refresh_token :: "token option"
  rr_ip :: "string option"
  rr_userAgent :: "string option"

definition sessionExpiredError :: error where
  "sessionExpiredError = AppError ''Session expired'' 401 ''SESSION_EXPIRED''"

definition userInvalidError :: error where
  "userInvalidError = AppError ''User not found or inactive'' 401 ''USER_INVALID''"

text \<open>The rotation proper, once the token, its session and the account have been accepted.\<close>

definition rotate ::
  "world \<Rightarrow> time \<Rightarrow> string \<Rightarrow> refresh_request \<Rightarrow> payload \<Rightarrow> user \<Rightarrow> string outcome" where
  "rotate s now newSessionId rq pl u =
     (let newPayload = \<lparr>userId = user_id u, tok_email = email u, tok_role = role u,
                        sessionId = newSessionId\<rparr>;
          newAccessToken = generateAccessToken now newPayload;
          newRefreshToken = generateRefreshToken now newPayload
      in case session_del s (sessionId pl) of
           Inl e \<Rightarrow> failed e NoCookies [] s
         | Inr s1 \<Rightarrow>
             (case session_setex s1 now newSessionId (7 * 24 * 60 * 60)
                     \<lparr>sd_userId = user_id u, createdAt = now, sd_ip = rr_ip rq,
                      sd_userAgent = rr_userAgent rq\<rparr> of
                Inl e \<Rightarrow> failed e NoCookies [] s1
              | Inr s2 \<Rightarrow>
                  \<lparr>result = Inr ''Token refreshed successfully'',
                   cookies = SetAuthCookies newAccessToken newRefreshToken,
                   events = [AuditEvent ''auth.token_refresh'' (user_id u)],
                   world_after = s2\<rparr>))"

definition refreshToken :: "world \<Rightarrow> time \<Rightarrow> string \<Rightarrow> refresh_request \<Rightarrow> string outcome" where
  "refreshToken s now uuid rq =
     (case cookie_refresh_token rq of
        None \<Rightarrow> failed (AppError ''Refresh token not provided'' 401 ''NO_REFRESH_TOKEN'') NoCookies [] s
      | Some tk \<Rightarrow>
          if tk = Garbage [] then
            failed (AppError ''Refresh token not provided'' 401 ''NO_REFRESH_TOKEN'') NoCookies [] s
          else
            (case verifyRefreshToken now tk of
               Inl e \<Rightarrow> failed e NoCookies [] s
             | Inr pl \<Rightarrow>
                 (case session_get s now (sessionId pl) of
                    Inl e \<Rightarrow> failed e NoCookies [] s
                  | Inr None \<Rightarrow> failed sessionExpiredError ClearAuthCookies [] s
                  | Inr (Some session) \<Rightarrow>
                      (case findUniqueById s (userId pl) of
                         Inl e \<Rightarrow> failed e NoCookies [] s
                       | Inr None \<Rightarrow> failed userInvalidError ClearAuthCookies [] s
                       | Inr (Some u) \<Rightarrow>
                           if \<not> isActive u then failed userInvalidError ClearAuthCookies [] s
                           else rotate s now uuid rq pl u))))"

text \<open>
  The \<open>try\<close> block of logout with its empty \<open>catch\<close>: whatever fails inside, the handler
  goes on to clear the cookies and to answer with success.
\<close>

definition logout_try :: "world \<Rightarrow> time \<Rightarrow> token \<Rightarrow> world \<times> event list" where
  "logout_try s now tk =
     (case verifyRefreshToken now tk of
        Inl e \<Rightarrow> (s, [])
      | Inr pl \<Rightarrow>
          (case blacklistSession s now (sessionId pl) of
             Inl e \<Rightarrow> (s, [])
           | Inr s1 \<Rightarrow>
               (case session_del s1 (sessionId pl) of
                  Inl e \<Rightarrow> (s1, [])
                | Inr s2 \<Rightarrow> (s2, [AuditEvent ''auth.logout'' (userId pl)]))))"

definition logout :: "world \<Rightarrow> time \<Rightarrow> refresh_request \<Rightarrow> string outcome" where
  "logout s now rq =
     (let (s1, evs) =
            (case cookie_refresh_token rq of
               None \<Rightarrow> (s, [])
             | Some tk \<Rightarrow> if tk = Garbage [] then (s, []) else logout_try s now tk)
      in \<lparr>result = Inr ''Logged out successfully'', cookies = ClearAuthCookies,
          events = evs, world_after = s1\<rparr>)"

section \<open>Session middleware (middleware/auth.middleware.ts)\<close>

datatype auth_header = Bearer token | OtherHeader string

record auth_request =
  cookie_access_token :: "token option"
  authorization :: "auth_header option"

record identity =
  ident_id :: string
  ident_email :: string
  ident_role :: string

text \<open>
  What a middleware leaves behind: the argument of its call of \<open>next\<close> (none for a plain
  \<open>next()\<close>), the identity attached to the request, and its effects. The stores are only
  read.
\<close>

record mw_outcome =
  next_error :: "error option"
  req_user :: "identity option"
  mw_cookies :: cookie_effect
  mw_events :: "event list"

definition sessionRevokedError :: error where
  "sessionRevokedError = AppError ''Session expired. Please log in again.'' 401 ''SESSION_EXPIRED''"

definition unauthorizedError :: error where
  "unauthorizedError = AppError ''Authentication required'' 401 ''UNAUTHORIZED''"

text \<open>
  The token \<open>authenticate\<close> works on: the cookie, or, when there is none, what follows
  \<open>Bearer\<close> in the Authorization header.
\<close>

definition request_token :: "auth_request \<Rightarrow> token option" where
  "request_token rq =
     (if no_token (cookie_access_token rq)
      then (case authorization rq of
              Some (Bearer t) \<Rightarrow> Some t
            | _ \<Rightarrow> cookie_access_token rq)
      else cookie_access_token rq)"

text \<open>
  The \<open>try\<close> block of \<open>authenticate\<close>: the identity, or what was thrown together with
  whether the cookies were cleared before the throw.
\<close>

definition authenticate_try :: "world \<Rightarrow> time \<Rightarrow> auth_request \<Rightarrow> (error + identity) \<times> bool" where
  "authenticate_try s now rq =
     (case request_token rq of
           None \<Rightarrow> (Inl unauthorizedError, False)
         | Some tk \<Rightarrow>
             if tk = Garbage [] then (Inl unauthorizedError, False)
             else
               (case verifyAccessToken now tk of
                  Inl e \<Rightarrow> (Inl e, False)
                | Inr pl \<Rightarrow>
                    (case isSessionBlacklisted s now (sessionId pl) of
                       Inl e \<Rightarrow> (Inl e, False)
                     | Inr True \<Rightarrow> (Inl sessionRevokedError, True)
                     | Inr False \<Rightarrow>
                         (case findUniqueById s (userId pl) of
                            Inl e \<Rightarrow> (Inl e, False)
                          | Inr None \<Rightarrow> (Inl (AppError ''User not found'' 401 ''USER_NOT_FOUND''), False)
                          | Inr (Some u) \<Rightarrow>
                              if \<not> isActive u then
                                (Inl (AppError ''Account is deactivated'' 403 ''ACCOUNT_DEACTIVATED''), False)
                              else if locked_at now u then
                                (Inl (AppError ''Account is temporarily locked'' 403 ''ACCOUNT_LOCKED''), False)
                              else
                                (Inr \<lparr>ident_id = user_id u, ident_email = email u,
                                      ident_role = role u\<rparr>, False)))))"

text \<open>The \<open>catch\<close> block decides what is handed to \<open>next\<close>.\<close>

definition authenticate :: "world \<Rightarrow> time \<Rightarrow> auth_request \<Rightarrow> mw_outcome" where
  "authenticate s now rq =
     (case authenticate_try s now rq of
        (Inr ident, cleared) \<Rightarrow>
          \<lparr>next_error = None, req_user = Some ident, mw_cookies = NoCookies,
           mw_events = [SecurityLog ''Authentication successful'']\<rparr>
      | (Inl TokenExpiredError, cleared) \<Rightarrow>
          \<lparr>next_error = Some (AppError ''Token expired. Please log in again.'' 401 ''TOKEN_EXPIRED''),
           req_user = None, mw_cookies = ClearAuthCookies, mw_events = []\<rparr>
      | (Inl JsonWebTokenError, cleared) \<Rightarrow>
          \<lparr>next_error = Some (AppError ''Invalid token'' 401 ''INVALID_TOKEN''),
           req_user = None, mw_cookies = ClearAuthCookies,
           mw_events = [SecurityLog ''Invalid token attempt'']\<rparr>
      | (Inl e, cleared) \<Rightarrow>
          \<lparr>next_error = Some e, req_user = None,
           mw_cookies = (if cleared then ClearAuthCookies else NoCookies), mw_events = []\<rparr>)"

text \<open>\<open>optionalAuth\<close> reads the cookie only, and its \<open>catch\<close> calls a plain \<open>next()\<close>.\<close>

definition optionalAuth :: "world \<Rightarrow> time \<Rightarrow> auth_request \<Rightarrow> mw_outcome" where
  "optionalAuth s now rq =
     (let pass = \<lparr>next_error = None, req_user = None, mw_cookies = NoCookies, mw_events = []\<rparr>
      in case cookie_access_token rq of
           None \<Rightarrow> pass
         | Some tk \<Rightarrow>
             if tk = Garbage [] then pass
             else
               (case verifyAccessToken now tk of
                  Inl e \<Rightarrow> pass
                | Inr pl \<Rightarrow>
                    (case isSessionBlacklisted s now (sessionId pl) of
                       Inl e \<Rightarrow> pass
                     | Inr True \<Rightarrow> pass\<lparr>mw_cookies := ClearAuthCookies\<rparr>
                     | Inr False \<Rightarrow>
                         (case findUniqueById s (userId pl) of
                            Inl e \<Rightarrow> pass
                          | Inr None \<Rightarrow> pass
                          | Inr (Some u) \<Rightarrow>
                              if isActive u then
                                pass\<lparr>req_user := Some \<lparr>ident_id = user_id u, ident_email = email u,
                                                        ident_role = role u\<rparr>\<rparr>
                              else pass))))"

section \<open>Runs of login attempts\<close>

text \<open>
  One login request as it reaches the handler: the clock reading, the value
  \<open>randomUUID()\<close> would return, and the request.
\<close>

record attempt =
  at_time :: time
  at_uuid :: string
  at_req :: login_request

text \<open>The key login passes to the rate limiter, and the live counter the limiter holds for a key.\<close>

definition login_key :: "login_request \<Rightarrow> string" where
  "login_key rq = ''login:'' @ clientIp_of (req_ip rq) @ '':'' @ body_email rq"

definition rl_count :: "world \<Rightarrow> time \<Rightarrow> string \<Rightarrow> int" where
  "rl_count s now key =
     (case rl_get s now (''ratelimit:'' @ key) of None \<Rightarrow> 0 | Some (c, e) \<Rightarrow> c)"

text \<open>No rate-limit counter of the store exceeds \<open>n\<close>.\<close>

definition rl_bound :: "world \<Rightarrow> int \<Rightarrow> bool" where
  "rl_bound s n = (\<forall>k c e. ratelimit s k = Some (c, e) \<longrightarrow> c \<le> n)"

text \<open>The account row \<open>findUnique({where: {email}})\<close> returns.\<close>

definition account_of :: "world \<Rightarrow> string \<Rightarrow> user option" where
  "account_of s e = find (\<lambda>u. email u = e) (users s)"

text \<open>Login requests handled one after another: the outcomes, and the stores they leave.\<close>

fun login_run ::
  "(string \<Rightarrow> string \<Rightarrow> bool) \<Rightarrow> world \<Rightarrow> attempt list \<Rightarrow> login_response outcome list" where
  "login_run cmp s [] = []"
| "login_run cmp s (a # rest) =
     (let out = login cmp s (at_time a) (at_uuid a) (at_req a)
      in out # login_run cmp (world_after out) rest)"

fun login_seq :: "(string \<Rightarrow> string \<Rightarrow> bool) \<Rightarrow> world \<Rightarrow> attempt list \<Rightarrow> world" where
  "login_seq cmp s [] = s"
| "login_seq cmp s (a # rest) =
     login_seq cmp (world_after (login cmp s (at_time a) (at_uuid a) (at_req a))) rest"

text \<open>Every attempt of a list is for the account \<open>u\<close> and carries a password that is not its own.\<close>

definition wrong_attempts ::
  "(string \<Rightarrow> string \<Rightarrow> bool) \<Rightarrow> user \<Rightarrow> attempt list \<Rightarrow> bool" where
  "wrong_attempts cmp u as =
     list_all (\<lambda>a. body_email (at_req a) = email u \<and>
                   \<not> cmp (body_password (at_req a)) (passwordHash u)) as"

text \<open>Whether an outcome shows that a password was compared.\<close>

definition password_evaluated :: "'a outcome \<Rightarrow> bool" where
  "password_evaluated out =
     list_ex (\<lambda>ev. case ev of BcryptCompare p h \<Rightarrow> True | _ \<Rightarrow> False) (events out)"

text \<open>
  What the handlers keep true of every account row: the counter is not negative, and a
  lockout expiry is only ever stored together with a counter that has reached the maximum.
\<close>

definition lock_inv :: "user \<Rightarrow> bool" where
  "lock_inv u =
     (0 \<le> failedLoginAttempts u \<and>
      (case lockedUntil u of None \<Rightarrow> True | Some t \<Rightarrow> maxLoginAttempts \<le> failedLoginAttempts u))"

section \<open>Requests that overlap\<close>

text \<open>
  Login awaits the account row and, later, the write of the counter. \<open>login_fetch\<close> is the
  handler up to the row it has read (or the outcome, when it ends before); the rest of the
  handler is \<open>login_known\<close> on that row. In \<open>login_overlapped\<close> every request of the list
  has read its row before the first of them goes on, so each goes on with the row as it
  was when it read it.
\<close>

definition login_fetch ::
  "world \<Rightarrow> time \<Rightarrow> login_request \<Rightarrow> login_response outcome + user \<times> world" where
  "login_fetch s now rq =
     (let clientIp = clientIp_of (req_ip rq);
          rateLimitKey = ''login:'' @ clientIp @ '':'' @ body_email rq
      in case checkRateLimit s now rateLimitKey 5 (15 * 60) of
           Inl e \<Rightarrow> Inl (failed e NoCookies [] s)
         | Inr (rateLimit, s1) \<Rightarrow>
             if \<not> allowed rateLimit then
               Inl (failed rateLimitedError NoCookies [SecurityLog ''Login rate limit exceeded''] s1)
             else
               (case findUniqueByEmail s1 (body_email rq) of
                  Inl e \<Rightarrow> Inl (failed e NoCookies [] s1)
                | Inr None \<Rightarrow>
                    Inl (failed genericError NoCookies
                           [BcryptCompare (body_password rq) dummy_hash] s1)
                | Inr (Some u) \<Rightarrow> Inr (u, s1)))"

fun fetch_all :: "world \<Rightarrow> attempt list \<Rightarrow> (attempt \<times> user) list \<times> world" where
  "fetch_all s [] = ([], s)"
| "fetch_all s (a # rest) =
     (case login_fetch s (at_time a) (at_req a) of
        Inl out \<Rightarrow> fetch_all (world_after out) rest
      | Inr (u, s1) \<Rightarrow> (let (ps, s2) = fetch_all s1 rest in ((a, u) # ps, s2)))"

fun finish_all ::
  "(string \<Rightarrow> string \<Rightarrow> bool) \<Rightarrow> world \<Rightarrow> (attempt \<times> user) list \<Rightarrow> world" where
  "finish_all cmp s [] = s"
| "finish_all cmp s ((a, u) # rest) =
     finish_all cmp
       (world_after (login_known cmp s (at_time a) (at_uuid a) (at_req a)
                       (clientIp_of (req_ip (at_req a))) u)) rest"

definition login_overlapped ::
  "(string \<Rightarrow> string \<Rightarrow> bool) \<Rightarrow> world \<Rightarrow> attempt list \<Rightarrow> world" where
  "login_overlapped cmp s as = (let (ps, s1) = fetch_all s as in finish_all cmp s1 ps)"

text \<open>
  Whether the account of an email address is locked at an instant, and how many requests
  of a run handled one after another take it from not locked to locked.
\<close>

definition is_locked :: "world \<Rightarrow> time \<Rightarrow> string \<Rightarrow> bool" where
  "is_locked s now e = (case account_of s e of None \<Rightarrow> False | Some u \<Rightarrow> locked_at now u)"

fun lock_transitions ::
  "(string \<Rightarrow> string \<Rightarrow> bool) \<Rightarrow> world \<Rightarrow> string \<Rightarrow> attempt list \<Rightarrow> nat" where
  "lock_transitions cmp s e [] = 0"
| "lock_transitions cmp s e (a # rest) =
     (let s1 = world_after (login cmp s (at_time a) (at_uuid a) (at_req a))
      in (if \<not> is_locked s (at_time a) e \<and> is_locked s1 (at_time a) e then 1 else 0)
         + lock_transitions cmp s1 e rest)"

section \<open>Outcomes of the middleware\<close>

definition accepted :: "identity \<Rightarrow> mw_outcome" where
  "accepted ident =
     \<lparr>next_error = None, req_user = Some ident, mw_cookies = NoCookies,
      mw_events = [SecurityLog ''Authentication successful'']\<rparr>"

definition rejected :: "error \<Rightarrow> cookie_effect \<Rightarrow> event list \<Rightarrow> mw_outcome" where
  "rejected e c evs = \<lparr>next_error = Some e, req_user = None, mw_cookies = c, mw_events = evs\<rparr>"

section \<open>Example data\<close>

text \<open>
  A store with one account and a password check that accepts exactly the password behind
  the stored hash; the theorems below are instantiated on them.
\<close>

definition alice :: user where
  "alice = \<lparr>user_id = ''u1'', email = ''alice@example.com'', passwordHash = ''hash:correct horse'',
            role = ''CUSTOMER'', firstName = ''Alice'', lastName = ''A'', isActive = True,
            lockedUntil = None, failedLoginAttempts = 0, emailVerified = True,
            lastLoginAt = None\<rparr>"

definition world0 :: world where
  "world0 = \<lparr>users = [alice], sessions = Map.empty, blacklist = Map.empty,
             ratelimit = Map.empty, redisDown = False, dbDown = False\<rparr>"

definition cmp0 :: "string \<Rightarrow> string \<Rightarrow> bool" where
  "cmp0 p h = (h = ''hash:'' @ p)"

definition payload1 :: payload where
  "payload1 = \<lparr>userId = ''u1'', tok_email = ''alice@example.com'', tok_role = ''CUSTOMER'',
               sessionId = ''sid1''\<rparr>"

definition access1_jwt :: jwt where
  "access1_jwt = \<lparr>signedWith = AccessSecret, claims = payload1, tok_iat = 1, tok_exp = 901,
                  iss = ''secureshop-api'', aud = ''secureshop-client''\<rparr>"

definition access1 :: token where
  "access1 = generateAccessToken 1000 payload1"

definition refresh1 :: token where
  "refresh1 = generateRefreshToken 1000 payload1"

definition alice_ident :: identity where
  "alice_ident = \<lparr>ident_id = ''u1'', ident_email = ''alice@example.com'', ident_role = ''CUSTOMER''\<rparr>"

definition wrong_rq :: login_request where
  "wrong_rq = \<lparr>body_email = ''alice@example.com'', body_password = ''guess'', rememberMe = False,
               req_ip = Some ''10.0.0.1'', req_userAgent = None\<rparr>"

definition right_rq :: login_request where
  "right_rq = \<lparr>body_email = ''alice@example.com'', body_password = ''correct horse'',
               rememberMe = False, req_ip = Some ''10.0.0.1'', req_userAgent = None\<rparr>"

definition wrong_at :: "time \<Rightarrow> attempt" where
  "wrong_at t = \<lparr>at_time = t, at_uuid = ''unused'', at_req = wrong_rq\<rparr>"

definition right_at :: "time \<Rightarrow> string \<Rightarrow> attempt" where
  "right_at t sid = \<lparr>at_time = t, at_uuid = sid, at_req = right_rq\<rparr>"

definition wrong5 :: "attempt list" where
  "wrong5 = [wrong_at 1000, wrong_at 2000, wrong_at 3000, wrong_at 4000, wrong_at 5000]"

definition right5 :: "attempt list" where
  "right5 = [right_at 1000 ''sid1'', right_at 2000 ''sid2'', right_at 3000 ''sid3'',
             right_at 4000 ''sid4'', right_at 5000 ''sid5'']"

definition wrong6 :: "attempt list" where
  "wrong6 = [wrong_at 1000, wrong_at 1000, wrong_at 1000, wrong_at 1000, wrong_at 1000,
             wrong_at 1000]"

definition unknown_rq :: login_request where
  "unknown_rq = \<lparr>body_email = ''nobody@example.com'', body_password = ''guess'',
                 rememberMe = False, req_ip = Some ''10.0.0.1'', req_userAgent = None\<rparr>"

text \<open>
  The stores after a login of the account at 1000 (it issues \<open>access1\<close> and \<open>refresh1\<close>
  for the session \<open>sid1\<close>), and after a refresh with \<open>refresh1\<close> at 2000.
\<close>

definition world_login :: world where
  "world_login = world_after (login cmp0 world0 1000 ''sid1'' right_rq)"

definition refresh_rq1 :: refresh_request where
  "refresh_rq1 = \<lparr>cookie_refresh_token = Some refresh1, rr_ip = Some ''10.0.0.1'',
                  rr_userAgent = None\<rparr>"

definition world_rotated :: world where
  "world_rotated = world_after (refreshToken world_login 2000 ''sid2'' refresh_rq1)"

definition auth_rq1 :: auth_request where
  "auth_rq1 = \<lparr>cookie_access_token = Some access1, authorization = None\<rparr>"

text \<open>
  Two stores outside the hypotheses of the lockout theorems: one whose account was
  deactivated while it was locked out, and one that holds a rate-limit counter of three
  earlier login attempts of the client for the address, its window still open.
\<close>

definition world_deactivated :: world where
  "world_deactivated =
     world0\<lparr>users := [alice\<lparr>isActive := False, failedLoginAttempts := 5,
                               lockedUntil := Some 1805000\<rparr>]\<rparr>"

definition world_pending :: world where
  "world_pending =
     world0\<lparr>ratelimit :=
       [''ratelimit:login:10.0.0.1:alice@example.com'' \<mapsto> (3, Some 500000)]\<rparr>"

section \<open>The stores and the rate limiter\<close>

lemmas store_defs = findUniqueByEmail_def findUniqueById_def user_update_def session_get_def
  session_setex_def session_del_def isSessionBlacklisted_def blacklistSession_def

lemmas rl_defs = checkRateLimit_def redis_incr_def redis_ttl_def redis_expire_def rl_get_def

lemma checkRateLimit_up:
  assumes "\<not> redisDown s"
  shows "\<exists>r s'. checkRateLimit s now key m w = Inr (r, s') \<and>
           allowed r = (rl_count s now key + 1 \<le> m) \<and>
           remaining r = max 0 (m - (rl_count s now key + 1)) \<and>
           users s' = users s \<and> sessions s' = sessions s \<and> blacklist s' = blacklist s \<and>
           redisDown s' = redisDown s \<and> dbDown s' = dbDown s \<and>
           (\<forall>k. k \<noteq> ''ratelimit:'' @ key \<longrightarrow> ratelimit s' k = ratelimit s k) \<and>
           (0 < w \<longrightarrow> rl_count s' now key = rl_count s now key + 1)"
  using assms
  by (auto simp add: rl_defs rl_count_def Let_def split: option.splits prod.splits if_splits)

lemma checkRateLimit_live:
  assumes "\<not> redisDown s" "ratelimit s (''ratelimit:'' @ key) = Some (c, Some E)" "now < E"
  shows "\<exists>r s'. checkRateLimit s now key m w = Inr (r, s') \<and>
           ratelimit s' (''ratelimit:'' @ key) = Some (c + 1, Some E)"
  using assms
  by (auto simp add: rl_defs Let_def split: option.splits prod.splits if_splits)

lemma checkRateLimit_fresh:
  assumes "\<not> redisDown s" "rl_get s now (''ratelimit:'' @ key) = None" "0 < w"
  shows "\<exists>r s'. checkRateLimit s now key m w = Inr (r, s') \<and>
           ratelimit s' (''ratelimit:'' @ key) = Some (1, Some (now + w * 1000))"
  using assms
  by (auto simp add: rl_defs Let_def split: option.splits prod.splits if_splits)

lemma rl_count_le_bound:
  assumes "rl_bound s n" "0 \<le> n"
  shows "rl_count s now k \<le> n"
  using assms
  by (auto simp add: rl_bound_def rl_count_def rl_get_def split: option.splits if_splits)

lemma checkRateLimit_bound:
  assumes "checkRateLimit s now key m w = Inr (r, s')" "rl_bound s n" "0 \<le> n"
  shows "rl_bound s' (n + 1)"
  using assms
  by (fastforce simp add: rl_defs rl_bound_def Let_def split: option.splits prod.splits if_splits)

lemma find_map_upd:
  assumes "\<And>r. email (f r) = email r"
  shows "find (\<lambda>r. email r = e) (map (\<lambda>r. if user_id r = i then f r else r) us)
         = map_option (\<lambda>r. if user_id r = i then f r else r) (find (\<lambda>r. email r = e) us)"
  using assms by (induction us) auto

lemma find_Some_ex: "find P us = Some u \<Longrightarrow> list_ex (\<lambda>r. user_id r = user_id u) us"
  by (induction us) (auto split: if_splits)

lemma user_update_ok:
  assumes "\<not> dbDown s" "account_of s e = Some u" "\<And>r. email (f r) = email r"
  shows "\<exists>s'. user_update s (user_id u) f = Inr s' \<and> account_of s' e = Some (f u) \<and>
           users s' = map (\<lambda>r. if user_id r = user_id u then f r else r) (users s) \<and>
           ratelimit s' = ratelimit s \<and> sessions s' = sessions s \<and> blacklist s' = blacklist s \<and>
           redisDown s' = redisDown s \<and> dbDown s' = dbDown s"
  using assms find_Some_ex[of "\<lambda>u. email u = e" "users s" u]
  by (simp add: user_update_def account_of_def find_map_upd)

section \<open>One login request\<close>

lemma login_unfold:
  assumes "checkRateLimit s now (login_key rq) 5 (15 * 60) = Inr (r, s1)"
  shows "login cmp s now uuid rq =
     (if \<not> allowed r then
        failed rateLimitedError NoCookies [SecurityLog ''Login rate limit exceeded''] s1
      else
        (case findUniqueByEmail s1 (body_email rq) of
           Inl e \<Rightarrow> failed e NoCookies [] s1
         | Inr None \<Rightarrow> failed genericError NoCookies [BcryptCompare (body_password rq) dummy_hash] s1
         | Inr (Some u) \<Rightarrow> login_known cmp s1 now uuid rq (clientIp_of (req_ip rq)) u))"
  using assms by (simp add: login_def login_key_def Let_def)

lemma login_gate:
  assumes "\<not> redisDown s"
  obtains r s1 where "checkRateLimit s now (login_key rq) 5 (15 * 60) = Inr (r, s1)"
    "allowed r = (rl_count s now (login_key rq) + 1 \<le> 5)"
    "users s1 = users s" "sessions s1 = sessions s" "blacklist s1 = blacklist s"
    "\<not> redisDown s1" "dbDown s1 = dbDown s"
    "\<And>k. k \<noteq> ''ratelimit:'' @ login_key rq \<Longrightarrow> ratelimit s1 k = ratelimit s k"
    "rl_count s1 now (login_key rq) = rl_count s now (login_key rq) + 1"
  using checkRateLimit_up[OF assms, of now "login_key rq" 5 "15 * 60"] assms by auto

lemma login_known_frame:
  "ratelimit (world_after (login_known cmp s now uuid rq ip u)) = ratelimit s \<and>
   redisDown (world_after (login_known cmp s now uuid rq ip u)) = redisDown s \<and>
   dbDown (world_after (login_known cmp s now uuid rq ip u)) = dbDown s \<and>
   blacklist (world_after (login_known cmp s now uuid rq ip u)) = blacklist s"
  by (simp add: login_known_def login_success_def failed_def store_defs Let_def
        split: sum.splits if_splits)

lemma login_known_not_rate_limited:
  "result (login_known cmp s now uuid rq ip u) \<noteq> Inl rateLimitedError"
  by (simp add: login_known_def login_success_def failed_def store_defs Let_def rateLimitedError_def
        genericError_def accountLockedError_def split: sum.splits if_splits)

lemma login_ratelimit_after:
  assumes "checkRateLimit s now (login_key rq) 5 (15 * 60) = Inr (r, s1)"
  shows "ratelimit (world_after (login cmp s now uuid rq)) = ratelimit s1"
  using login_known_frame
  by (simp add: login_unfold[OF assms] failed_def findUniqueByEmail_def
        split: sum.splits option.splits)

lemma login_frame:
  assumes "\<not> redisDown s"
  shows "\<not> redisDown (world_after (login cmp s now uuid rq)) \<and>
         dbDown (world_after (login cmp s now uuid rq)) = dbDown s \<and>
         blacklist (world_after (login cmp s now uuid rq)) = blacklist s \<and>
         rl_count (world_after (login cmp s now uuid rq)) now (login_key rq)
           = rl_count s now (login_key rq) + 1 \<and>
         (\<forall>k. k \<noteq> ''ratelimit:'' @ login_key rq \<longrightarrow>
            ratelimit (world_after (login cmp s now uuid rq)) k = ratelimit s k)"
proof -
  obtain r s1 where g: "checkRateLimit s now (login_key rq) 5 (15 * 60) = Inr (r, s1)"
    "blacklist s1 = blacklist s"
    "\<not> redisDown s1" "dbDown s1 = dbDown s"
    "\<And>k. k \<noteq> ''ratelimit:'' @ login_key rq \<Longrightarrow> ratelimit s1 k = ratelimit s k"
    "rl_count s1 now (login_key rq) = rl_count s now (login_key rq) + 1"
    using login_gate[OF assms(1), where now=now and rq=rq] by metis
  show ?thesis using g(2-) login_known_frame
    by (simp add: login_unfold[OF g(1)] failed_def findUniqueByEmail_def rl_count_def rl_get_def
          split: sum.splits option.splits)
qed

lemma login_bound:
  assumes "\<not> redisDown s" "rl_bound s n" "0 \<le> n"
  shows "rl_bound (world_after (login cmp s now uuid rq)) (n + 1)"
proof -
  obtain r s1 where g: "checkRateLimit s now (login_key rq) 5 (15 * 60) = Inr (r, s1)"
    using login_gate[OF assms(1), where now=now and rq=rq] by metis
  have b: "rl_bound s1 (n + 1)" by (rule checkRateLimit_bound[OF g assms(2,3)])
  have "ratelimit (world_after (login cmp s now uuid rq)) = ratelimit s1"
    by (rule login_ratelimit_after[OF g])
  then show ?thesis using b by (simp add: rl_bound_def)
qed

lemma login_rate_limited:
  assumes "\<not> redisDown s" "5 < rl_count s now (login_key rq) + 1"
  shows "result (login cmp s now uuid rq) = Inl rateLimitedError \<and>
         cookies (login cmp s now uuid rq) = NoCookies \<and>
         events (login cmp s now uuid rq) = [SecurityLog ''Login rate limit exceeded''] \<and>
         users (world_after (login cmp s now uuid rq)) = users s \<and>
         sessions (world_after (login cmp s now uuid rq)) = sessions s"
proof -
  obtain r s1 where g: "checkRateLimit s now (login_key rq) 5 (15 * 60) = Inr (r, s1)"
    "allowed r = (rl_count s now (login_key rq) + 1 \<le> 5)"
    "users s1 = users s" "sessions s1 = sessions s"
    using login_gate[OF assms(1), where now=now and rq=rq] by metis
  show ?thesis using g assms(2) by (simp add: login_unfold[OF g(1)] failed_def)
qed

lemma login_passes_gate:
  assumes "\<not> redisDown s" "rl_count s now (login_key rq) + 1 \<le> 5"
  shows "result (login cmp s now uuid rq) \<noteq> Inl rateLimitedError"
proof -
  obtain r s1 where g: "checkRateLimit s now (login_key rq) 5 (15 * 60) = Inr (r, s1)"
    "allowed r = (rl_count s now (login_key rq) + 1 \<le> 5)"
    using login_gate[OF assms(1), where now=now and rq=rq] by metis
  show ?thesis using g assms(2) login_known_not_rate_limited
    by (simp add: login_unfold[OF g(1)] failed_def findUniqueByEmail_def rateLimitedError_def
        genericError_def split: sum.splits option.splits)
qed

lemma login_known_wrong:
  assumes "\<not> dbDown s" "account_of s (body_email rq) = Some u" "\<not> locked_at now u" "isActive u"
    "\<not> cmp (body_password rq) (passwordHash u)"
  shows "result (login_known cmp s now uuid rq ip u) = Inl genericError \<and>
         cookies (login_known cmp s now uuid rq ip u) = NoCookies \<and>
         events (login_known cmp s now uuid rq ip u) =
           [BcryptCompare (body_password rq) (passwordHash u), SecurityLog ''Failed login attempt'',
            AuditEvent ''auth.failed_login'' (user_id u)] \<and>
         account_of (world_after (login_known cmp s now uuid rq ip u)) (body_email rq) =
           Some (u\<lparr>failedLoginAttempts := failedLoginAttempts u + 1,
                   lockedUntil := (if maxLoginAttempts \<le> failedLoginAttempts u + 1
                                   then Some (now + lockoutDuration) else None)\<rparr>)"
proof -
  let ?f = "\<lambda>r::user. r\<lparr>failedLoginAttempts := failedLoginAttempts u + 1,
                   lockedUntil := (if maxLoginAttempts \<le> failedLoginAttempts u + 1
                                   then Some (now + lockoutDuration) else None)\<rparr>"
  from user_update_ok[OF assms(1) assms(2), of ?f]
  obtain s' where "user_update s (user_id u) ?f = Inr s'" "account_of s' (body_email rq) = Some (?f u)"
    by auto
  then show ?thesis using assms
    by (simp add: login_known_def Let_def failed_def)
qed

lemma login_wrong_password:
  assumes "\<not> redisDown s" "\<not> dbDown s" "rl_count s now (login_key rq) + 1 \<le> 5"
    "account_of s (body_email rq) = Some u" "\<not> locked_at now u" "isActive u"
    "\<not> cmp (body_password rq) (passwordHash u)"
  shows "result (login cmp s now uuid rq) = Inl genericError \<and>
         cookies (login cmp s now uuid rq) = NoCookies \<and>
         events (login cmp s now uuid rq) =
           [BcryptCompare (body_password rq) (passwordHash u), SecurityLog ''Failed login attempt'',
            AuditEvent ''auth.failed_login'' (user_id u)] \<and>
         account_of (world_after (login cmp s now uuid rq)) (body_email rq) =
           Some (u\<lparr>failedLoginAttempts := failedLoginAttempts u + 1,
                   lockedUntil := (if maxLoginAttempts \<le> failedLoginAttempts u + 1
                                   then Some (now + lockoutDuration) else None)\<rparr>)"
proof -
  obtain r s1 where g: "checkRateLimit s now (login_key rq) 5 (15 * 60) = Inr (r, s1)"
    "allowed r = (rl_count s now (login_key rq) + 1 \<le> 5)"
    "users s1 = users s" "dbDown s1 = dbDown s"
    using login_gate[OF assms(1), where now=now and rq=rq] by metis
  have a: "account_of s1 (body_email rq) = Some u" "\<not> dbDown s1"
    using g assms by (simp_all add: account_of_def)
  have f: "findUniqueByEmail s1 (body_email rq) = Inr (Some u)"
    using a by (simp add: findUniqueByEmail_def account_of_def)
  show ?thesis
    using login_known_wrong[where cmp=cmp and s=s1 and rq=rq and u=u and now=now and uuid=uuid
        and ip="clientIp_of (req_ip rq)"] a assms(5,6,7) g(2) assms(3) f
    by (simp add: login_unfold[OF g(1)])
qed

lemma login_locked:
  assumes "\<not> redisDown s" "\<not> dbDown s"
    "account_of s (body_email rq) = Some u" "locked_at now u"
  shows "result (login cmp s now uuid rq) =
           (if rl_count s now (login_key rq) + 1 \<le> 5 then Inl accountLockedError
            else Inl rateLimitedError) \<and>
         events (login cmp s now uuid rq) =
           (if rl_count s now (login_key rq) + 1 \<le> 5
            then [SecurityLog ''Login attempt on locked account'']
            else [SecurityLog ''Login rate limit exceeded'']) \<and>
         cookies (login cmp s now uuid rq) = NoCookies \<and>
         users (world_after (login cmp s now uuid rq)) = users s \<and>
         sessions (world_after (login cmp s now uuid rq)) = sessions s"
proof -
  obtain r s1 where g: "checkRateLimit s now (login_key rq) 5 (15 * 60) = Inr (r, s1)"
    "allowed r = (rl_count s now (login_key rq) + 1 \<le> 5)"
    "users s1 = users s" "sessions s1 = sessions s" "dbDown s1 = dbDown s"
    using login_gate[OF assms(1), where now=now and rq=rq] by metis
  have f: "findUniqueByEmail s1 (body_email rq) = Inr (Some u)"
    using g assms by (simp add: findUniqueByEmail_def account_of_def)
  show ?thesis
    using g(2-) assms(4) f
    by (simp add: login_unfold[OF g(1)] login_known_def failed_def)
qed

lemma login_counter_live:
  assumes "\<not> redisDown s" "ratelimit s (''ratelimit:'' @ login_key rq) = Some (c, Some E)" "now < E"
  shows "ratelimit (world_after (login cmp s now uuid rq)) (''ratelimit:'' @ login_key rq)
           = Some (c + 1, Some E) \<and> rl_count s now (login_key rq) = c"
proof -
  obtain r s1 where g: "checkRateLimit s now (login_key rq) 5 (15 * 60) = Inr (r, s1)"
    "ratelimit s1 (''ratelimit:'' @ login_key rq) = Some (c + 1, Some E)"
    using checkRateLimit_live[OF assms, of 5 "15 * 60"] by auto
  show ?thesis using g(2) assms(2,3)
    by (simp add: login_ratelimit_after[OF g(1)] rl_count_def rl_get_def)
qed

lemma login_counter_fresh:
  assumes "\<not> redisDown s" "rl_get s now (''ratelimit:'' @ login_key rq) = None"
  shows "ratelimit (world_after (login cmp s now uuid rq)) (''ratelimit:'' @ login_key rq)
           = Some (1, Some (now + 900000)) \<and> rl_count s now (login_key rq) = 0"
proof -
  obtain r s1 where g: "checkRateLimit s now (login_key rq) 5 (15 * 60) = Inr (r, s1)"
    "ratelimit s1 (''ratelimit:'' @ login_key rq) = Some (1, Some (now + (15 * 60) * 1000))"
    using checkRateLimit_fresh[OF assms, of "15 * 60" 5] by auto
  show ?thesis using g(2) assms(2)
    by (simp add: login_ratelimit_after[OF g(1)] rl_count_def)
qed

lemma session_setex_ok:
  assumes "\<not> redisDown s"
  shows "session_setex s now sid ttl d
           = Inr (s\<lparr>sessions := (sessions s)(sid \<mapsto> (d, now + ttl * 1000))\<rparr>)"
  using assms by (simp add: session_setex_def)

lemma login_known_right:
  assumes "\<not> redisDown s" "\<not> dbDown s" "account_of s (body_email rq) = Some u"
    "\<not> locked_at now u" "isActive u" "cmp (body_password rq) (passwordHash u)"
    "0 \<le> failedLoginAttempts u" "lockedUntil u \<noteq> None \<longrightarrow> 0 < failedLoginAttempts u"
  shows "result (login_known cmp s now uuid rq ip u) = Inr (login_body u) \<and>
         cookies (login_known cmp s now uuid rq ip u) =
           SetAuthCookies
             (generateAccessToken now \<lparr>userId = user_id u, tok_email = email u, tok_role = role u,
                                        sessionId = uuid\<rparr>)
             (generateRefreshToken now \<lparr>userId = user_id u, tok_email = email u, tok_role = role u,
                                         sessionId = uuid\<rparr>) \<and>
         events (login_known cmp s now uuid rq ip u) =
           [BcryptCompare (body_password rq) (passwordHash u),
            AuditEvent ''auth.login'' (user_id u)] \<and>
         account_of (world_after (login_known cmp s now uuid rq ip u)) (body_email rq) =
           Some (u\<lparr>failedLoginAttempts := 0, lockedUntil := None, lastLoginAt := Some now\<rparr>) \<and>
         sessions (world_after (login_known cmp s now uuid rq ip u)) =
           (sessions s)(uuid \<mapsto>
              (\<lparr>sd_userId = user_id u, createdAt = now, sd_ip = Some ip,
                sd_userAgent = req_userAgent rq\<rparr>,
               now + (if rememberMe rq then 30 * 24 * 60 * 60 else 24 * 60 * 60) * 1000))"
proof -
  let ?reset = "\<lambda>r::user. r\<lparr>failedLoginAttempts := 0, lockedUntil := None\<rparr>"
  let ?seen = "\<lambda>r::user. r\<lparr>lastLoginAt := Some now\<rparr>"
  let ?d = "\<lparr>sd_userId = user_id u, createdAt = now, sd_ip = Some ip,
            sd_userAgent = req_userAgent rq\<rparr>"
  let ?ttl = "(if rememberMe rq then 30 * 24 * 60 * 60 else 24 * 60 * 60) :: int"
  obtain s1 where s1:
    "(if failedLoginAttempts u > 0 then user_update s (user_id u) ?reset else Inr s) = Inr s1"
    "account_of s1 (body_email rq) = Some (?reset u)" "sessions s1 = sessions s"
    "\<not> redisDown s1" "\<not> dbDown s1"
  proof (cases "failedLoginAttempts u > 0")
    case True
    from user_update_ok[OF assms(2) assms(3), of ?reset]
    obtain s' where "user_update s (user_id u) ?reset = Inr s'"
      "account_of s' (body_email rq) = Some (?reset u)"
      "sessions s' = sessions s" "redisDown s' = redisDown s" "dbDown s' = dbDown s" by auto
    then show ?thesis using that True assms(1,2) by simp
  next
    case False
    then have "?reset u = u" using assms(7,8) by simp
    then show ?thesis using that[of s] False assms(1,2,3) by simp
  qed
  let ?s2 = "s1\<lparr>sessions := (sessions s1)(uuid \<mapsto> (?d, now + ?ttl * 1000))\<rparr>"
  have s2: "session_setex s1 now uuid ?ttl ?d = Inr ?s2"
    by (rule session_setex_ok[OF s1(4)])
  have a2: "account_of ?s2 (body_email rq) = Some (?reset u)" "\<not> dbDown ?s2"
    using s1 by (simp_all add: account_of_def)
  from user_update_ok[OF a2(2) a2(1), of ?seen]
  obtain s3 where s3: "user_update ?s2 (user_id u) ?seen = Inr s3"
    "account_of s3 (body_email rq) = Some (?seen (?reset u))" "sessions s3 = sessions ?s2"
    by auto
  show ?thesis
    using assms(4,5,6) s1(1,3) s2 s3
    by (simp add: login_known_def login_success_def Let_def split: if_splits)
qed

lemma login_right_password:
  assumes "\<not> redisDown s" "\<not> dbDown s" "rl_count s now (login_key rq) + 1 \<le> 5"
    "account_of s (body_email rq) = Some u" "\<not> locked_at now u" "isActive u"
    "cmp (body_password rq) (passwordHash u)"
    "0 \<le> failedLoginAttempts u" "lockedUntil u \<noteq> None \<longrightarrow> 0 < failedLoginAttempts u"
  shows "result (login cmp s now uuid rq) = Inr (login_body u) \<and>
         cookies (login cmp s now uuid rq) =
           SetAuthCookies
             (generateAccessToken now \<lparr>userId = user_id u, tok_email = email u, tok_role = role u,
                                        sessionId = uuid\<rparr>)
             (generateRefreshToken now \<lparr>userId = user_id u, tok_email = email u, tok_role = role u,
                                         sessionId = uuid\<rparr>) \<and>
         account_of (world_after (login cmp s now uuid rq)) (body_email rq) =
           Some (u\<lparr>failedLoginAttempts := 0, lockedUntil := None, lastLoginAt := Some now\<rparr>) \<and>
         sessions (world_after (login cmp s now uuid rq)) =
           (sessions s)(uuid \<mapsto>
              (\<lparr>sd_userId = user_id u, createdAt = now, sd_ip = Some (clientIp_of (req_ip rq)),
                sd_userAgent = req_userAgent rq\<rparr>,
               now + (if rememberMe rq then 30 * 24 * 60 * 60 else 24 * 60 * 60) * 1000))"
proof -
  obtain r s1 where g: "checkRateLimit s now (login_key rq) 5 (15 * 60) = Inr (r, s1)"
    "allowed r = (rl_count s now (login_key rq) + 1 \<le> 5)"
    "users s1 = users s" "sessions s1 = sessions s" "\<not> redisDown s1" "dbDown s1 = dbDown s"
    using login_gate[OF assms(1), where now=now and rq=rq] by metis
  have a: "account_of s1 (body_email rq) = Some u" "\<not> dbDown s1"
    using g assms by (simp_all add: account_of_def)
  have f: "findUniqueByEmail s1 (body_email rq) = Inr (Some u)"
    using a by (simp add: findUniqueByEmail_def account_of_def)
  show ?thesis
    using login_known_right[where cmp=cmp and s=s1 and rq=rq and u=u and now=now and uuid=uuid
        and ip="clientIp_of (req_ip rq)"] a assms(5,6,7,8,9) g(2,4,5) assms(3) f
    by (simp add: login_unfold[OF g(1)])
qed

section \<open>Runs of login requests\<close>

lemma failed_run:
  assumes "\<not> redisDown s" "\<not> dbDown s" "account_of s (email u) = Some u" "isActive u"
    "lockedUntil u = None" "failedLoginAttempts u = j" "0 \<le> j" "rl_bound s j"
    "j + int (length as) = 5" "as \<noteq> []" "wrong_attempts cmp u as"
  shows "account_of (login_seq cmp s as) (email u) =
           Some (u\<lparr>failedLoginAttempts := 5,
                   lockedUntil := Some (at_time (last as) + lockoutDuration)\<rparr>) \<and>
         list_all (\<lambda>out. result out = Inl genericError) (login_run cmp s as) \<and>
         \<not> redisDown (login_seq cmp s as) \<and> \<not> dbDown (login_seq cmp s as)"
  using assms
proof (induction as arbitrary: s u j)
  case Nil
  then show ?case by simp
next
  case (Cons a rest)
  let ?now = "at_time a" and ?rq = "at_req a"
  have em: "body_email ?rq = email u" and wrong: "\<not> cmp (body_password ?rq) (passwordHash u)"
    using Cons.prems(11) by (simp_all add: wrong_attempts_def)
  let ?out = "login cmp s ?now (at_uuid a) ?rq"
  let ?s' = "world_after ?out"
  let ?u' = "u\<lparr>failedLoginAttempts := j + 1,
               lockedUntil := (if maxLoginAttempts \<le> j + 1 then Some (?now + lockoutDuration)
                               else None)\<rparr>"
  have j5: "j < 5" using Cons.prems(9) by simp
  have cnt: "rl_count s ?now (login_key ?rq) + 1 \<le> 5"
    using rl_count_le_bound[OF Cons.prems(8) Cons.prems(7), of ?now "login_key ?rq"] j5 by simp
  have nl: "\<not> locked_at ?now u" using Cons.prems(5) by (simp add: locked_at_def)
  have step: "result ?out = Inl genericError" "account_of ?s' (email u) = Some ?u'"
    using login_wrong_password[where cmp=cmp and s=s and rq="?rq" and u=u and now="?now"
        and uuid="at_uuid a"]
      Cons.prems(1,2,3,4,6) cnt nl wrong em by simp_all
  have fr: "\<not> redisDown ?s'" "\<not> dbDown ?s'"
    using login_frame[OF Cons.prems(1), of cmp ?now "at_uuid a" ?rq] Cons.prems(2) by simp_all
  have bd: "rl_bound ?s' (j + 1)"
    by (rule login_bound[OF Cons.prems(1) Cons.prems(8) Cons.prems(7)])
  show ?case
  proof (cases "rest = []")
    case True
    then have "j + 1 = 5" using Cons.prems(9) by simp
    then show ?thesis using True step fr by (simp add: maxLoginAttempts_def)
  next
    case False
    then have lt: "j + 1 < 5" using Cons.prems(9) by (cases rest) auto
    have u'none: "lockedUntil ?u' = None" using lt by (simp add: maxLoginAttempts_def)
    have acc': "account_of ?s' (email ?u') = Some ?u'" using step(2) by simp
    have IH: "account_of (login_seq cmp ?s' rest) (email ?u') =
           Some (?u'\<lparr>failedLoginAttempts := 5,
                   lockedUntil := Some (at_time (last rest) + lockoutDuration)\<rparr>) \<and>
         list_all (\<lambda>out. result out = Inl genericError) (login_run cmp ?s' rest) \<and>
         \<not> redisDown (login_seq cmp ?s' rest) \<and> \<not> dbDown (login_seq cmp ?s' rest)"
    proof (rule Cons.IH[OF fr acc' _ u'none _ _ bd _ False])
      show "isActive ?u'" using Cons.prems(4) by simp
      show "failedLoginAttempts ?u' = j + 1" by simp
      show "0 \<le> j + 1" using Cons.prems(7) by simp
      show "j + 1 + int (length rest) = 5" using Cons.prems(9) by simp
      show "wrong_attempts cmp ?u' rest"
        using Cons.prems(11) by (simp add: wrong_attempts_def)
    qed
    then show ?thesis using False step(1) by (simp add: Let_def)
  qed
qed

lemma run_counter:
  assumes "\<not> redisDown s" "ratelimit s (''ratelimit:'' @ k) = Some (c, Some E)"
    "list_all (\<lambda>a. at_time a < E \<and> login_key (at_req a) = k) as"
    "c + int (length as) \<le> 5"
  shows "ratelimit (login_seq cmp s as) (''ratelimit:'' @ k) = Some (c + int (length as), Some E) \<and>
         \<not> redisDown (login_seq cmp s as) \<and>
         list_all (\<lambda>out. result out \<noteq> Inl rateLimitedError) (login_run cmp s as)"
  using assms
proof (induction as arbitrary: s c)
  case Nil
  then show ?case by simp
next
  case (Cons a rest)
  let ?now = "at_time a" and ?rq = "at_req a"
  have k: "login_key ?rq = k" and t: "?now < E" using Cons.prems(3) by auto
  let ?s' = "world_after (login cmp s ?now (at_uuid a) ?rq)"
  have st: "ratelimit ?s' (''ratelimit:'' @ k) = Some (c + 1, Some E)"
    "rl_count s ?now (login_key ?rq) = c"
    using login_counter_live[where cmp=cmp and s=s and rq="?rq" and c=c and E=E and now="?now"
        and uuid="at_uuid a"]
      Cons.prems(1,2) k t by simp_all
  have up: "\<not> redisDown ?s'"
    using login_frame[OF Cons.prems(1), of cmp ?now "at_uuid a" ?rq] by simp
  have pass: "result (login cmp s ?now (at_uuid a) ?rq) \<noteq> Inl rateLimitedError"
    using login_passes_gate[OF Cons.prems(1), of ?now ?rq cmp "at_uuid a"] st(2) Cons.prems(4)
    by simp
  have "ratelimit (login_seq cmp ?s' rest) (''ratelimit:'' @ k)
          = Some (c + 1 + int (length rest), Some E) \<and>
        \<not> redisDown (login_seq cmp ?s' rest) \<and>
        list_all (\<lambda>out. result out \<noteq> Inl rateLimitedError) (login_run cmp ?s' rest)"
    using Cons.IH[OF up st(1)] Cons.prems(3,4) by simp
  then show ?case using pass by (simp add: Let_def add.assoc)
qed

lemma rate_limit_six:
  assumes up: "\<not> redisDown s"
    and five: "length as = 5"
    and fresh: "rl_get s (at_time (hd as)) (''ratelimit:'' @ k) = None"
    and window: "list_all (\<lambda>a. at_time a < at_time (hd as) + 900000 \<and> login_key (at_req a) = k) as"
    and sixth: "login_key rq = k" "now < at_time (hd as) + 900000"
  shows "list_all (\<lambda>out. result out \<noteq> Inl rateLimitedError) (login_run cmp s as) \<and>
         result (login cmp (login_seq cmp s as) now uuid rq) = Inl rateLimitedError \<and>
         cookies (login cmp (login_seq cmp s as) now uuid rq) = NoCookies \<and>
         events (login cmp (login_seq cmp s as) now uuid rq)
           = [SecurityLog ''Login rate limit exceeded''] \<and>
         users (world_after (login cmp (login_seq cmp s as) now uuid rq))
           = users (login_seq cmp s as)"
proof -
  obtain a rest where as: "as = a # rest" "length rest = 4" using five by (cases as) auto
  let ?t1 = "at_time a" and ?rq1 = "at_req a"
  have k1: "login_key ?rq1 = k" using window as by simp
  let ?s1 = "world_after (login cmp s ?t1 (at_uuid a) ?rq1)"
  have st: "ratelimit ?s1 (''ratelimit:'' @ k) = Some (1, Some (?t1 + 900000))"
           "rl_count s ?t1 (login_key ?rq1) = 0"
    using login_counter_fresh[where cmp=cmp and s=s and rq="?rq1" and now="?t1"
        and uuid="at_uuid a"]
      up fresh as k1 by simp_all
  have up1: "\<not> redisDown ?s1" using login_frame[OF up, of cmp ?t1 "at_uuid a" ?rq1] by simp
  have pass1: "result (login cmp s ?t1 (at_uuid a) ?rq1) \<noteq> Inl rateLimitedError"
    using login_passes_gate[OF up, of ?t1 ?rq1 cmp "at_uuid a"] st(2) by simp
  have rest: "ratelimit (login_seq cmp ?s1 rest) (''ratelimit:'' @ k)
                = Some (1 + int (length rest), Some (?t1 + 900000)) \<and>
         \<not> redisDown (login_seq cmp ?s1 rest) \<and>
         list_all (\<lambda>out. result out \<noteq> Inl rateLimitedError) (login_run cmp ?s1 rest)"
    using run_counter[where cmp=cmp and s="?s1" and k=k and c=1 and E="?t1 + 900000" and as=rest]
      up1 st(1) window as by simp
  let ?s5 = "login_seq cmp s as"
  have s5: "?s5 = login_seq cmp ?s1 rest" using as by simp
  have c5: "rl_count ?s5 now (login_key rq) = 5"
    using rest sixth as by (simp add: s5 rl_count_def rl_get_def)
  have up5: "\<not> redisDown ?s5" using rest by (simp add: s5)
  have six: "result (login cmp ?s5 now uuid rq) = Inl rateLimitedError \<and>
         cookies (login cmp ?s5 now uuid rq) = NoCookies \<and>
         events (login cmp ?s5 now uuid rq) = [SecurityLog ''Login rate limit exceeded''] \<and>
         users (world_after (login cmp ?s5 now uuid rq)) = users ?s5"
    using login_rate_limited[OF up5, of now rq cmp uuid] c5 by simp
  show ?thesis using six rest pass1 as by (simp add: Let_def)
qed

lemmas eval_defs = login_def login_known_def login_success_def login_body_def failed_def
  checkRateLimit_def redis_incr_def redis_ttl_def redis_expire_def rl_get_def
  findUniqueByEmail_def findUniqueById_def user_update_def session_get_def
  session_setex_def session_del_def isSessionBlacklisted_def blacklistSession_def
  clientIp_of_def locked_at_def Let_def maxLoginAttempts_def lockoutDuration_def
  login_key_def rl_count_def account_of_def
  world0_def alice_def cmp0_def wrong_rq_def right_rq_def wrong_at_def right_at_def wrong5_def
  right5_def wrong6_def unknown_rq_def

lemmas tok_defs = verifyAccessToken_def verifyRefreshToken_def jwt_verify_def
  generateAccessToken_def generateRefreshToken_def accessToken_expiresIn_def
  refreshToken_expiresIn_def jwt_issuer_def jwt_audience_def

lemmas sess_eval = eval_defs tok_defs refreshToken_def rotate_def logout_def logout_try_def
  authenticate_def authenticate_try_def request_token_def no_token_def
  world_login_def refresh_rq1_def world_rotated_def auth_rq1_def access1_def refresh1_def
  payload1_def alice_ident_def access1_jwt_def


lemma login_seq_append:
  "login_seq cmp s (xs @ ys) = login_seq cmp (login_seq cmp s xs) ys"
  by (induction xs arbitrary: s) simp_all

lemma lock_transitions_append:
  "lock_transitions cmp s e (xs @ ys) =
     lock_transitions cmp s e xs + lock_transitions cmp (login_seq cmp s xs) e ys"
  by (induction xs arbitrary: s) (simp_all add: Let_def)

lemma failed_run_transitions:
  assumes "\<not> redisDown s" "\<not> dbDown s" "account_of s (email u) = Some u" "isActive u"
    "lockedUntil u = None" "failedLoginAttempts u = j" "0 \<le> j" "rl_bound s j"
    "j + int (length as) = 5" "as \<noteq> []" "wrong_attempts cmp u as"
  shows "lock_transitions cmp s (email u) as = 1"
  using assms
proof (induction as arbitrary: s u j)
  case Nil
  then show ?case by simp
next
  case (Cons a rest)
  let ?now = "at_time a" and ?rq = "at_req a"
  have em: "body_email ?rq = email u" and wrong: "\<not> cmp (body_password ?rq) (passwordHash u)"
    using Cons.prems(11) by (simp_all add: wrong_attempts_def)
  let ?out = "login cmp s ?now (at_uuid a) ?rq"
  let ?s' = "world_after ?out"
  let ?u' = "u\<lparr>failedLoginAttempts := j + 1,
               lockedUntil := (if maxLoginAttempts \<le> j + 1 then Some (?now + lockoutDuration)
                               else None)\<rparr>"
  have j5: "j < 5" using Cons.prems(9) by simp
  have cnt: "rl_count s ?now (login_key ?rq) + 1 \<le> 5"
    using rl_count_le_bound[OF Cons.prems(8) Cons.prems(7), of ?now "login_key ?rq"] j5 by simp
  have nl: "\<not> locked_at ?now u" using Cons.prems(5) by (simp add: locked_at_def)
  have step: "account_of ?s' (email u) = Some ?u'"
    using login_wrong_password[where cmp=cmp and s=s and rq="?rq" and u=u and now="?now"
        and uuid="at_uuid a"]
      Cons.prems(1,2,3,4,6) cnt nl wrong em by simp
  have fr: "\<not> redisDown ?s'" "\<not> dbDown ?s'"
    using login_frame[OF Cons.prems(1), of cmp ?now "at_uuid a" ?rq] Cons.prems(2) by simp_all
  have bd: "rl_bound ?s' (j + 1)"
    by (rule login_bound[OF Cons.prems(1) Cons.prems(8) Cons.prems(7)])
  have before: "\<not> is_locked s ?now (email u)"
    using Cons.prems(3) nl by (simp add: is_locked_def)
  show ?case
  proof (cases "rest = []")
    case True
    then have "j + 1 = 5" using Cons.prems(9) by simp
    then have "is_locked ?s' ?now (email u)"
      using step by (simp add: is_locked_def locked_at_def maxLoginAttempts_def lockoutDuration_def)
    then show ?thesis using True before by (simp add: Let_def)
  next
    case False
    then have lt: "j + 1 < 5" using Cons.prems(9) by (cases rest) auto
    have u'none: "lockedUntil ?u' = None" using lt by (simp add: maxLoginAttempts_def)
    have after: "\<not> is_locked ?s' ?now (email u)"
      using step u'none by (simp add: is_locked_def locked_at_def)
    have acc': "account_of ?s' (email ?u') = Some ?u'" using step by simp
    have IH: "lock_transitions cmp ?s' (email ?u') rest = 1"
    proof (rule Cons.IH[OF fr acc' _ u'none _ _ bd _ False])
      show "isActive ?u'" using Cons.prems(4) by simp
      show "failedLoginAttempts ?u' = j + 1" by simp
      show "0 \<le> j + 1" using Cons.prems(7) by simp
      show "j + 1 + int (length rest) = 5" using Cons.prems(9) by simp
      show "wrong_attempts cmp ?u' rest"
        using Cons.prems(11) by (simp add: wrong_attempts_def)
    qed
    then show ?thesis using after by (simp add: Let_def)
  qed
qed

lemma locked_run:
  assumes "\<not> redisDown s" "\<not> dbDown s" "account_of s e = Some u" "lockedUntil u = Some L"
    "list_all (\<lambda>a. at_time a < L \<and> body_email (at_req a) = e) as"
  shows "users (login_seq cmp s as) = users s \<and> lock_transitions cmp s e as = 0"
  using assms
proof (induction as arbitrary: s)
  case Nil
  then show ?case by simp
next
  case (Cons a rest)
  let ?now = "at_time a" and ?rq = "at_req a"
  let ?s' = "world_after (login cmp s ?now (at_uuid a) ?rq)"
  have t: "?now < L" and em: "body_email ?rq = e" using Cons.prems(5) by simp_all
  have lk: "locked_at ?now u" using Cons.prems(4) t by (simp add: locked_at_def)
  have same: "users ?s' = users s"
    using login_locked[where cmp=cmp and s=s and rq="?rq" and u=u and now="?now"
        and uuid="at_uuid a"] Cons.prems(1,2,3) em lk by simp
  have fr: "\<not> redisDown ?s'" "\<not> dbDown ?s'"
    using login_frame[OF Cons.prems(1), of cmp ?now "at_uuid a" ?rq] Cons.prems(2) by simp_all
  have acc: "account_of ?s' e = Some u" using same Cons.prems(3) by (simp add: account_of_def)
  have before: "is_locked s ?now e" using Cons.prems(3) lk by (simp add: is_locked_def)
  have "users (login_seq cmp ?s' rest) = users ?s' \<and> lock_transitions cmp ?s' e rest = 0"
    using Cons.IH[OF fr acc Cons.prems(4)] Cons.prems(5) by simp
  then show ?case using same before by (simp add: Let_def)
qed

lemma login_split:
  "login cmp s now uuid rq =
     (case login_fetch s now rq of
        Inl out \<Rightarrow> out
      | Inr (u, s1) \<Rightarrow> login_known cmp s1 now uuid rq (clientIp_of (req_ip rq)) u)"
  by (simp add: login_def login_fetch_def Let_def split: sum.splits option.splits prod.splits)

lemma known_stale_write:
  assumes "\<not> dbDown s" "account_of s (body_email rq) = Some cur" "user_id cur = user_id u"
    "\<not> locked_at now u" "isActive u" "\<not> cmp (body_password rq) (passwordHash u)"
  shows "account_of (world_after (login_known cmp s now uuid rq ip u)) (body_email rq) =
           Some (cur\<lparr>failedLoginAttempts := failedLoginAttempts u + 1,
                     lockedUntil := (if maxLoginAttempts \<le> failedLoginAttempts u + 1
                                     then Some (now + lockoutDuration) else None)\<rparr>)"
proof -
  let ?f = "\<lambda>r::user. r\<lparr>failedLoginAttempts := failedLoginAttempts u + 1,
                   lockedUntil := (if maxLoginAttempts \<le> failedLoginAttempts u + 1
                                   then Some (now + lockoutDuration) else None)\<rparr>"
  from user_update_ok[OF assms(1) assms(2), of ?f]
  obtain s' where "user_update s (user_id cur) ?f = Inr s'"
    "account_of s' (body_email rq) = Some (?f cur)"
    by auto
  then show ?thesis using assms
    by (simp add: login_known_def Let_def failed_def)
qed



section \<open>The middleware\<close>

lemma authenticate_try_Inr:
  "(\<exists>ident c. authenticate_try s now rq = (Inr ident, c)) \<longleftrightarrow>
      (\<exists>tk pl u. request_token rq = Some tk \<and> tk \<noteq> Garbage [] \<and>
         verifyAccessToken now tk = Inr pl \<and>
         isSessionBlacklisted s now (sessionId pl) = Inr False \<and>
         findUniqueById s (userId pl) = Inr (Some u) \<and> isActive u \<and> \<not> locked_at now u)"
  by (auto simp add: authenticate_try_def split: option.splits sum.splits bool.splits if_splits)

lemma authenticate_next:
  "next_error (authenticate s now rq) = None \<longleftrightarrow>
     (\<exists>ident c. authenticate_try s now rq = (Inr ident, c))"
proof (cases "authenticate_try s now rq")
  case (Pair r c)
  then show ?thesis
    by (cases r) (simp_all add: authenticate_def split: error.splits)
qed

lemma authenticate_sessions_irrelevant:
  "authenticate (s\<lparr>sessions := m\<rparr>) now rq = authenticate s now rq"
proof -
  have h1: "\<And>n sid. isSessionBlacklisted (s\<lparr>sessions := m\<rparr>) n sid = isSessionBlacklisted s n sid"
    by (simp add: isSessionBlacklisted_def)
  have h2: "\<And>i. findUniqueById (s\<lparr>sessions := m\<rparr>) i = findUniqueById s i"
    by (simp add: findUniqueById_def)
  have "authenticate_try (s\<lparr>sessions := m\<rparr>) now rq = authenticate_try s now rq"
    unfolding authenticate_try_def h1 h2 ..
  then show ?thesis by (simp add: authenticate_def)
qed

lemma authenticate_blacklisted:
  assumes "request_token rq = Some tk" "tk \<noteq> Garbage []" "verifyAccessToken now tk = Inr pl"
    "isSessionBlacklisted s now (sessionId pl) = Inr True"
  shows "authenticate s now rq = rejected sessionRevokedError ClearAuthCookies []"
  using assms
  by (simp add: authenticate_def authenticate_try_def rejected_def sessionRevokedError_def)

text \<open>A token that has not expired at \<open>t1\<close> and expires within 900 seconds of \<open>t0\<close>.\<close>

lemma div_window:
  fixes t0 t1 :: int
  assumes "t1 div 1000 < t0 div 1000 + 900"
  shows "t1 < t0 + 604800000"
proof -
  have "t1 < (t1 div 1000 + 1) * 1000" by (simp add: div_less_iff_less_mult algebra_simps)
  also have "\<dots> \<le> (t0 div 1000 + 900) * 1000" using assms by simp
  also have "\<dots> \<le> t0 + 900000" by (simp add: algebra_simps)
  finally show ?thesis by simp
qed

section \<open>What login keeps true of the account rows\<close>

text \<open>
  Login writes a lockout expiry only together with a counter that has reached the maximum,
  and never a negative counter: \<open>lock_inv\<close> holds of every row after a login when it held
  of every row before.
\<close>

lemma user_update_inv:
  assumes "user_update s i f = Inr s'" "list_all lock_inv (users s)"
    "\<And>r. lock_inv r \<Longrightarrow> lock_inv (f r)"
  shows "list_all lock_inv (users s')"
  using assms
  by (auto simp add: user_update_def list_all_iff split: if_splits)

lemma session_setex_users: "session_setex s now sid ttl d = Inr s' \<Longrightarrow> users s' = users s"
  by (auto simp add: session_setex_def split: if_splits)

lemma login_success_inv:
  assumes "list_all lock_inv (users s)"
  shows "list_all lock_inv (users (world_after (login_success s now uuid rq ip u)))"
proof -
  let ?reset = "\<lambda>r::user. r\<lparr>failedLoginAttempts := 0, lockedUntil := None\<rparr>"
  let ?seen = "\<lambda>r::user. r\<lparr>lastLoginAt := Some now\<rparr>"
  have r1: "\<And>r. lock_inv r \<Longrightarrow> lock_inv (?reset r)" by (simp add: lock_inv_def)
  have r2: "\<And>r. lock_inv r \<Longrightarrow> lock_inv (?seen r)"
    by (simp add: lock_inv_def split: option.splits)
  have a: "\<And>s1. (if failedLoginAttempts u > 0 then user_update s (user_id u) ?reset else Inr s) = Inr s1
            \<Longrightarrow> list_all lock_inv (users s1)"
    using user_update_inv[where s=s and i="user_id u" and f="?reset"] assms r1
    by (auto split: if_splits)
  have b: "\<And>s1 s2 s3. list_all lock_inv (users s1) \<Longrightarrow> session_setex s1 now uuid
              (if rememberMe rq then 30 * 24 * 60 * 60 else 24 * 60 * 60)
              \<lparr>sd_userId = user_id u, createdAt = now, sd_ip = Some ip,
               sd_userAgent = req_userAgent rq\<rparr> = Inr s2 \<Longrightarrow>
            list_all lock_inv (users s2)"
    using session_setex_users by simp
  have c: "\<And>s2 s3. list_all lock_inv (users s2) \<Longrightarrow> user_update s2 (user_id u) ?seen = Inr s3 \<Longrightarrow>
            list_all lock_inv (users s3)"
    using user_update_inv[where i="user_id u" and f="?seen"] r2 by blast
  show ?thesis
  proof (cases "if failedLoginAttempts u > 0 then user_update s (user_id u) ?reset else Inr s")
    case (Inl e)
    then show ?thesis using assms by (simp add: login_success_def Let_def failed_def)
  next
    case (Inr s1)
    note s1 = this
    have i1: "list_all lock_inv (users s1)" by (rule a[OF s1])
    show ?thesis
    proof (cases "session_setex s1 now uuid
              (if rememberMe rq then 30 * 24 * 60 * 60 else 24 * 60 * 60)
              \<lparr>sd_userId = user_id u, createdAt = now, sd_ip = Some ip,
               sd_userAgent = req_userAgent rq\<rparr>")
      case (Inl e)
      then show ?thesis using s1 i1 by (simp add: login_success_def Let_def failed_def)
    next
      case (Inr s2)
      note s2 = this
      have i2: "list_all lock_inv (users s2)" by (rule b[OF i1 s2])
      show ?thesis
      proof (cases "user_update s2 (user_id u) ?seen")
        case (Inl e)
        then show ?thesis using s1 s2 i2 by (simp add: login_success_def Let_def failed_def)
      next
        case (Inr s3)
        then show ?thesis using s1 s2 c[OF i2 Inr]
          by (simp add: login_success_def Let_def)
      qed
    qed
  qed
qed

lemma login_known_inv:
  assumes "list_all lock_inv (users s)" "lock_inv u"
  shows "list_all lock_inv (users (world_after (login_known cmp s now uuid rq ip u)))"
proof -
  let ?f = "\<lambda>r::user. r\<lparr>failedLoginAttempts := failedLoginAttempts u + 1,
                  lockedUntil := (if maxLoginAttempts \<le> failedLoginAttempts u + 1
                                  then Some (now + lockoutDuration) else None)\<rparr>"
  have r: "\<And>r. lock_inv r \<Longrightarrow> lock_inv (?f r)"
    using assms(2) by (simp add: lock_inv_def split: option.splits)
  have w: "\<And>s1. user_update s (user_id u) ?f = Inr s1 \<Longrightarrow> list_all lock_inv (users s1)"
    using user_update_inv[where s=s and i="user_id u" and f="?f"] assms(1) r by blast
  show ?thesis
  proof (cases "user_update s (user_id u) ?f")
    case (Inl e)
    then show ?thesis using assms(1) login_success_inv[OF assms(1)]
      by (simp add: login_known_def Let_def failed_def)
  next
    case (Inr s1)
    then show ?thesis using assms(1) w[OF Inr] login_success_inv[OF assms(1)]
      by (simp add: login_known_def Let_def failed_def)
  qed
qed

lemma find_Some_in: "find P us = Some u \<Longrightarrow> u \<in> set us"
  by (induction us) (auto split: if_splits)

lemma login_preserves_lock_inv:
  assumes "list_all lock_inv (users s)"
  shows "list_all lock_inv (users (world_after (login cmp s now uuid rq)))"
proof (cases "redisDown s")
  case True
  then show ?thesis using assms by (simp add: login_def checkRateLimit_def failed_def)
next
  case False
  obtain r s1 where g: "checkRateLimit s now (login_key rq) 5 (15 * 60) = Inr (r, s1)"
    "users s1 = users s"
    using login_gate[OF False, where now=now and rq=rq] by metis
  have inv1: "list_all lock_inv (users s1)" using assms g(2) by simp
  have k: "\<And>u. findUniqueByEmail s1 (body_email rq) = Inr (Some u) \<Longrightarrow>
     list_all lock_inv (users (world_after (login_known cmp s1 now uuid rq (clientIp_of (req_ip rq)) u)))"
  proof -
    fix u assume "findUniqueByEmail s1 (body_email rq) = Inr (Some u)"
    then have "u \<in> set (users s1)"
      by (auto simp add: findUniqueByEmail_def split: if_splits dest: find_Some_in)
    then have "lock_inv u" using inv1 by (simp add: list_all_iff)
    then show "list_all lock_inv (users (world_after (login_known cmp s1 now uuid rq (clientIp_of (req_ip rq)) u)))"
      by (rule login_known_inv[OF inv1])
  qed
  show ?thesis using inv1 k
    by (simp add: login_unfold[OF g(1)] failed_def split: sum.splits option.splits)
qed

section \<open>Deactivated accounts and pending rate-limit counters\<close>

text \<open>
  An attempt for a deactivated account that is not locked at the time and that the rate
  limiter lets through is answered \<open>ACCOUNT_DEACTIVATED\<close>; no password is compared and
  the account rows stay as they are.
\<close>

lemma login_deactivated:
  assumes "\<not> redisDown s" "\<not> dbDown s" "rl_count s now (login_key rq) + 1 \<le> 5"
    "account_of s (body_email rq) = Some u" "\<not> locked_at now u" "\<not> isActive u"
  shows "result (login cmp s now uuid rq) =
           Inl (AppError ''Account is deactivated'' 403 ''ACCOUNT_DEACTIVATED'') \<and>
         events (login cmp s now uuid rq) = [] \<and>
         cookies (login cmp s now uuid rq) = NoCookies \<and>
         users (world_after (login cmp s now uuid rq)) = users s \<and>
         sessions (world_after (login cmp s now uuid rq)) = sessions s"
proof -
  obtain r s1 where g: "checkRateLimit s now (login_key rq) 5 (15 * 60) = Inr (r, s1)"
    "allowed r = (rl_count s now (login_key rq) + 1 \<le> 5)"
    "users s1 = users s" "sessions s1 = sessions s" "dbDown s1 = dbDown s"
    using login_gate[OF assms(1), where now=now and rq=rq] by metis
  have f: "findUniqueByEmail s1 (body_email rq) = Inr (Some u)"
    using g assms by (simp add: findUniqueByEmail_def account_of_def)
  show ?thesis
    using g(2-) assms(3,5,6) f
    by (simp add: login_unfold[OF g(1)] login_known_def failed_def)
qed

text \<open>
  So for the deactivated account, with a lockout that ended at 1805000: a wrong password
  at 1806000 is not compared, and the row keeps its counter and its lockout expiry.
\<close>

lemma deactivated_after_expiry:
  "result (login cmp0 world_deactivated 1806000 ''sid1'' wrong_rq)
     = Inl (AppError ''Account is deactivated'' 403 ''ACCOUNT_DEACTIVATED'') \<and>
   \<not> password_evaluated (login cmp0 world_deactivated 1806000 ''sid1'' wrong_rq) \<and>
   users (world_after (login cmp0 world_deactivated 1806000 ''sid1'' wrong_rq))
     = users world_deactivated"
  by (simp add: eval_defs world_deactivated_def password_evaluated_def)

text \<open>
  With a counter of three pending for the client and the address, six wrong passwords
  handled one after another do not lock the account: the rate limiter lets two of them
  through and stops the other four, and the failed-attempt counter ends at 2.
\<close>

lemma pending_counter_no_lockout:
  "lock_transitions cmp0 world_pending ''alice@example.com'' wrong6 = 0 \<and>
   account_of (login_seq cmp0 world_pending wrong6) ''alice@example.com''
     = Some (alice\<lparr>failedLoginAttempts := 2\<rparr>) \<and>
   map result (login_run cmp0 world_pending wrong6)
     = [Inl genericError, Inl genericError, Inl rateLimitedError, Inl rateLimitedError,
        Inl rateLimitedError, Inl rateLimitedError]"
  by code_simp

section \<open>Lockout\<close>

text \<open>
  C3, as the code has it. An active account with no failed attempts is locked by
  \<open>maxLoginAttempts\<close> wrong-password attempts in a row, none of them held back by the rate
  limiter: each is answered with the generic error, and the last one sets the lockout
  expiry to its own time plus \<open>lockoutDuration\<close>. While that expiry has not passed, any
  further attempt for the account, whatever its password, is rejected without a password
  comparison and without a write to the account: with \<open>ACCOUNT_LOCKED\<close> when it passes
  the rate limiter, with \<open>RATE_LIMITED\<close> when it does not, the limiter being asked first.
\<close>

theorem C3_lockout_after_max_failures:
  assumes stores: "\<not> redisDown s" "\<not> dbDown s"
    and acct: "account_of s (email u) = Some u" "isActive u" "lockedUntil u = None"
      "failedLoginAttempts u = 0"
    and fresh: "rl_bound s 0"
    and fails: "int (length as) = maxLoginAttempts" "wrong_attempts cmp u as"
    and later: "body_email rq = email u" "now < at_time (last as) + lockoutDuration"
  shows "list_all (\<lambda>out. result out = Inl genericError) (login_run cmp s as) \<and>
         account_of (login_seq cmp s as) (email u) =
           Some (u\<lparr>failedLoginAttempts := maxLoginAttempts,
                   lockedUntil := Some (at_time (last as) + lockoutDuration)\<rparr>) \<and>
         result (login cmp (login_seq cmp s as) now uuid rq) =
           (if rl_count (login_seq cmp s as) now (login_key rq) + 1 \<le> 5
            then Inl accountLockedError else Inl rateLimitedError) \<and>
         \<not> password_evaluated (login cmp (login_seq cmp s as) now uuid rq) \<and>
         users (world_after (login cmp (login_seq cmp s as) now uuid rq))
           = users (login_seq cmp s as)"
proof -
  have ne: "as \<noteq> []" using fails(1) by (auto simp add: maxLoginAttempts_def)
  have len: "0 + int (length as) = 5" using fails(1) by (simp add: maxLoginAttempts_def)
  let ?s5 = "login_seq cmp s as"
  let ?u5 = "u\<lparr>failedLoginAttempts := 5,
               lockedUntil := Some (at_time (last as) + lockoutDuration)\<rparr>"
  have run: "account_of ?s5 (email u) = Some ?u5 \<and>
         list_all (\<lambda>out. result out = Inl genericError) (login_run cmp s as) \<and>
         \<not> redisDown ?s5 \<and> \<not> dbDown ?s5"
    by (rule failed_run[OF stores acct(1,2,3,4) _ fresh len ne fails(2)]) simp
  have lk: "locked_at now ?u5" using later(2) by (simp add: locked_at_def)
  have acc: "account_of ?s5 (body_email rq) = Some ?u5" using run later(1) by simp
  have "result (login cmp ?s5 now uuid rq) =
           (if rl_count ?s5 now (login_key rq) + 1 \<le> 5 then Inl accountLockedError
            else Inl rateLimitedError) \<and>
         events (login cmp ?s5 now uuid rq) =
           (if rl_count ?s5 now (login_key rq) + 1 \<le> 5
            then [SecurityLog ''Login attempt on locked account'']
            else [SecurityLog ''Login rate limit exceeded'']) \<and>
         cookies (login cmp ?s5 now uuid rq) = NoCookies \<and>
         users (world_after (login cmp ?s5 now uuid rq)) = users ?s5 \<and>
         sessions (world_after (login cmp ?s5 now uuid rq)) = sessions ?s5"
    using login_locked[where cmp=cmp and s="?s5" and rq=rq and u="?u5" and now=now and uuid=uuid]
      run acc lk by simp
  then show ?thesis using run by (simp add: password_evaluated_def maxLoginAttempts_def)
qed

theorem C3_lockout_witness:
  "account_of (login_seq cmp0 world0 wrong5) ''alice@example.com''
     = Some (alice\<lparr>failedLoginAttempts := 5, lockedUntil := Some 1805000\<rparr>) \<and>
   list_all (\<lambda>out. result out = Inl genericError) (login_run cmp0 world0 wrong5) \<and>
   \<not> password_evaluated (login cmp0 (login_seq cmp0 world0 wrong5) 1000000 ''sid1'' right_rq) \<and>
   users (world_after (login cmp0 (login_seq cmp0 world0 wrong5) 1000000 ''sid1'' right_rq))
     = users (login_seq cmp0 world0 wrong5)"
proof -
  have h1: "\<not> redisDown world0" "\<not> dbDown world0" by (simp_all add: world0_def)
  have h2: "account_of world0 (email alice) = Some alice" "isActive alice"
    "lockedUntil alice = None" "failedLoginAttempts alice = 0"
    by (simp_all add: account_of_def world0_def alice_def)
  have h3: "rl_bound world0 0" by (simp add: rl_bound_def world0_def)
  have h4: "int (length wrong5) = maxLoginAttempts" "wrong_attempts cmp0 alice wrong5"
    by (simp_all add: wrong5_def maxLoginAttempts_def wrong_attempts_def wrong_at_def wrong_rq_def
        cmp0_def alice_def)
  have h5: "body_email right_rq = email alice"
    "1000000 < at_time (last wrong5) + lockoutDuration"
    by (simp_all add: right_rq_def alice_def wrong5_def wrong_at_def lockoutDuration_def)
  from C3_lockout_after_max_failures[OF h1 h2 h3 h4 h5, of "''sid1''"]
  show ?thesis
    by (simp add: alice_def wrong5_def wrong_at_def maxLoginAttempts_def lockoutDuration_def)
qed

text \<open>
  Against the wording of the specification, where the rate limiter cuts in: five wrong passwords
  from one client lock the account, and the next attempt of that client, one second later
  and with the right password, is answered \<open>RATE_LIMITED\<close>, not \<open>ACCOUNT_LOCKED\<close>.
\<close>

theorem C3_counterexample:
  "account_of (login_seq cmp0 world0 wrong5) ''alice@example.com''
     = Some (alice\<lparr>failedLoginAttempts := 5, lockedUntil := Some 1805000\<rparr>) \<and>
   (6000 :: int) < 1805000 \<and>
   cmp0 (body_password right_rq) (passwordHash alice) \<and>
   result (login cmp0 (login_seq cmp0 world0 wrong5) 6000 ''sid1'' right_rq)
     = Inl rateLimitedError \<and>
   rateLimitedError \<noteq> accountLockedError"
  by (simp add: eval_defs rateLimitedError_def accountLockedError_def genericError_def)

text \<open>
  C4, as the code has it. The account is active and in the locked state: a lockout expiry
  is stored and the failed-attempt counter is at the maximum or above. Both stores answer.
  A wrong-password login attempt for it, made once the lockout expiry has passed and let
  through by the rate limiter, is no longer turned away as locked: its password is compared
  and the answer is the generic \<open>INVALID_CREDENTIALS\<close>. Nothing is reset before the
  comparison: the attempt adds one to the counter the lockout left behind and, that counter
  being at the maximum already, locks the account again at once, until the time of this
  attempt plus \<open>lockoutDuration\<close>. (The account has to be active: \<open>login\<close> answers
  \<open>ACCOUNT_DEACTIVATED\<close> for a deactivated one before it compares the password.)
\<close>

theorem C4_attempt_after_lockout_expiry:
  assumes stores: "\<not> redisDown s" "\<not> dbDown s"
    and gate: "rl_count s now (login_key rq) + 1 \<le> 5"
    and acct: "account_of s (body_email rq) = Some u" "isActive u"
    and locked: "lockedUntil u = Some L" "maxLoginAttempts \<le> failedLoginAttempts u"
    and elapsed: "L \<le> now"
    and wrong: "\<not> cmp (body_password rq) (passwordHash u)"
  shows "result (login cmp s now uuid rq) = Inl genericError \<and>
         password_evaluated (login cmp s now uuid rq) \<and>
         account_of (world_after (login cmp s now uuid rq)) (body_email rq) =
           Some (u\<lparr>failedLoginAttempts := failedLoginAttempts u + 1,
                   lockedUntil := Some (now + lockoutDuration)\<rparr>) \<and>
         locked_at now (u\<lparr>failedLoginAttempts := failedLoginAttempts u + 1,
                           lockedUntil := Some (now + lockoutDuration)\<rparr>)"
proof -
  have nl: "\<not> locked_at now u" using locked(1) elapsed by (simp add: locked_at_def)
  have "result (login cmp s now uuid rq) = Inl genericError \<and>
         cookies (login cmp s now uuid rq) = NoCookies \<and>
         events (login cmp s now uuid rq) =
           [BcryptCompare (body_password rq) (passwordHash u), SecurityLog ''Failed login attempt'',
            AuditEvent ''auth.failed_login'' (user_id u)] \<and>
         account_of (world_after (login cmp s now uuid rq)) (body_email rq) =
           Some (u\<lparr>failedLoginAttempts := failedLoginAttempts u + 1,
                   lockedUntil := (if maxLoginAttempts \<le> failedLoginAttempts u + 1
                                   then Some (now + lockoutDuration) else None)\<rparr>)"
    using login_wrong_password[where cmp=cmp and s=s and rq=rq and u=u and now=now and uuid=uuid]
      stores gate acct nl wrong by simp
  then show ?thesis using locked(2)
    by (simp add: password_evaluated_def locked_at_def lockoutDuration_def)
qed

theorem C4_after_expiry_witness:
  "result (login cmp0 (login_seq cmp0 world0 wrong5) 1806000 ''sid1'' wrong_rq) = Inl genericError \<and>
   password_evaluated (login cmp0 (login_seq cmp0 world0 wrong5) 1806000 ''sid1'' wrong_rq) \<and>
   account_of (world_after (login cmp0 (login_seq cmp0 world0 wrong5) 1806000 ''sid1'' wrong_rq))
       ''alice@example.com''
     = Some (alice\<lparr>failedLoginAttempts := 6, lockedUntil := Some 3606000\<rparr>)"
proof -
  let ?s = "login_seq cmp0 world0 wrong5"
  let ?u = "alice\<lparr>failedLoginAttempts := 5, lockedUntil := Some 1805000\<rparr>"
  have h1: "\<not> redisDown ?s" "\<not> dbDown ?s" by (simp_all add: eval_defs)
  have h2: "rl_count ?s 1806000 (login_key wrong_rq) + 1 \<le> 5" by (simp add: eval_defs)
  have h3: "account_of ?s (body_email wrong_rq) = Some ?u" "isActive ?u" by (simp_all add: eval_defs)
  have h4: "lockedUntil ?u = Some 1805000" "maxLoginAttempts \<le> failedLoginAttempts ?u"
    by (simp_all add: maxLoginAttempts_def)
  have h5: "(1805000 :: int) \<le> 1806000" by simp
  have h6: "\<not> cmp0 (body_password wrong_rq) (passwordHash ?u)"
    by (simp add: cmp0_def wrong_rq_def alice_def)
  from C4_attempt_after_lockout_expiry[where cmp=cmp0 and s="?s" and now=1806000 and rq=wrong_rq
      and u="?u" and L=1805000 and uuid="''sid1''"] h1 h2 h3 h4 h5 h6
  show ?thesis by (simp add: wrong_rq_def lockoutDuration_def alice_def)
qed

text \<open>
  Against the wording of the specification: five wrong passwords lock the account until 1805000;
  a wrong password at 1806000, after the expiry, leaves the counter at 6, not at 1, and
  the account locked until 3606000.
\<close>

theorem C4_counterexample:
  "account_of (login_seq cmp0 world0 wrong5) ''alice@example.com''
     = Some (alice\<lparr>failedLoginAttempts := 5, lockedUntil := Some 1805000\<rparr>) \<and>
   (1805000 :: int) < 1806000 \<and>
   account_of (login_seq cmp0 world0 (wrong5 @ [wrong_at 1806000])) ''alice@example.com''
     = Some (alice\<lparr>failedLoginAttempts := 6, lockedUntil := Some 3606000\<rparr>) \<and>
   locked_at 1806001 (alice\<lparr>failedLoginAttempts := 6, lockedUntil := Some 3606000\<rparr>)"
  by (simp add: eval_defs)

text \<open>
  C8, as the code has it. On an active account that is not locked at the time of the
  request, whatever its failed-attempt counter (also one short of the maximum, also one
  left behind by a lockout whose expiry has passed), a login attempt with the right
  password that passes the rate limiter succeeds, and leaves the counter at zero and the
  lockout expiry cleared. The attempt needs to pass the limiter: login asks it first, and
  it counts successful attempts as well. The account row is one as login writes them
  (\<open>lock_inv\<close>): the handler resets both fields only when the counter is positive.
\<close>

theorem C8_correct_password_resets:
  assumes stores: "\<not> redisDown s" "\<not> dbDown s"
    and gate: "rl_count s now (login_key rq) + 1 \<le> 5"
    and acct: "account_of s (body_email rq) = Some u" "isActive u" "\<not> locked_at now u"
      "lock_inv u"
    and right: "cmp (body_password rq) (passwordHash u)"
  shows "result (login cmp s now uuid rq) = Inr (login_body u) \<and>
         cookies (login cmp s now uuid rq) =
           SetAuthCookies
             (generateAccessToken now \<lparr>userId = user_id u, tok_email = email u, tok_role = role u,
                                        sessionId = uuid\<rparr>)
             (generateRefreshToken now \<lparr>userId = user_id u, tok_email = email u, tok_role = role u,
                                         sessionId = uuid\<rparr>) \<and>
         account_of (world_after (login cmp s now uuid rq)) (body_email rq) =
           Some (u\<lparr>failedLoginAttempts := 0, lockedUntil := None, lastLoginAt := Some now\<rparr>)"
proof -
  have i1: "0 \<le> failedLoginAttempts u" using acct(4) by (simp add: lock_inv_def)
  have i2: "lockedUntil u \<noteq> None \<longrightarrow> 0 < failedLoginAttempts u"
    using acct(4) by (auto simp add: lock_inv_def maxLoginAttempts_def)
  show ?thesis
    using login_right_password[where cmp=cmp and s=s and rq=rq and u=u and now=now and uuid=uuid]
      stores gate acct(1,2,3) right i1 i2 by simp
qed

theorem C8_correct_password_witness:
  "result (login cmp0 (login_seq cmp0 world0 wrong5) 1806000 ''sid1'' right_rq)
     = Inr (login_body alice) \<and>
   account_of (world_after (login cmp0 (login_seq cmp0 world0 wrong5) 1806000 ''sid1'' right_rq))
       ''alice@example.com''
     = Some (alice\<lparr>lastLoginAt := Some 1806000\<rparr>)"
proof -
  let ?s = "login_seq cmp0 world0 wrong5"
  let ?u = "alice\<lparr>failedLoginAttempts := 5, lockedUntil := Some 1805000\<rparr>"
  have h1: "\<not> redisDown ?s" "\<not> dbDown ?s" by (simp_all add: eval_defs)
  have h2: "rl_count ?s 1806000 (login_key right_rq) + 1 \<le> 5" by (simp add: eval_defs)
  have h3: "account_of ?s (body_email right_rq) = Some ?u" "isActive ?u"
    "\<not> locked_at 1806000 ?u" "lock_inv ?u"
    by (simp_all add: eval_defs lock_inv_def)
  have h4: "cmp0 (body_password right_rq) (passwordHash ?u)"
    by (simp add: cmp0_def right_rq_def alice_def)
  from C8_correct_password_resets[where cmp=cmp0 and s="?s" and now=1806000 and rq=right_rq
      and u="?u" and uuid="''sid1''"] h1 h2 h3 h4
  show ?thesis by (simp add: right_rq_def alice_def login_body_def)
qed

text \<open>
  Against the wording of the specification, where the rate limiter cuts in: the account is active,
  is not locked and has no failed attempt, and the sixth login with the right password
  within the window is answered \<open>RATE_LIMITED\<close>.
\<close>

theorem C8_counterexample:
  "account_of (login_seq cmp0 world0 right5) ''alice@example.com''
     = Some (alice\<lparr>lastLoginAt := Some 5000\<rparr>) \<and>
   isActive alice \<and> lockedUntil alice = None \<and> failedLoginAttempts alice = 0 \<and>
   cmp0 (body_password right_rq) (passwordHash alice) \<and>
   result (login cmp0 (login_seq cmp0 world0 right5) 6000 ''sid6'' right_rq)
     = Inl rateLimitedError"
  by (simp add: eval_defs generateAccessToken_def generateRefreshToken_def)

section \<open>Rate limiting\<close>

text \<open>
  C6. With the store reachable, \<open>checkRateLimit\<close> increments the counter of the key and
  allows the call exactly when the incremented count is at most \<open>maxAttempts\<close>, with
  \<open>remaining = max 0 (maxAttempts - count)\<close>; the store holds the incremented count
  afterwards when the window is positive. For login (5 attempts in 900 seconds): when
  no counter is live at the first of five attempts of one client for one email address and
  all fall within 900 seconds of it, none of the five is answered \<open>RATE_LIMITED\<close>, whatever
  else happens to them; a sixth attempt within the window is answered \<open>RATE_LIMITED\<close>
  whatever its password, with no password comparison and no change to the accounts.
\<close>

theorem C6_rate_limiter:
  assumes up: "\<not> redisDown s"
    and up0: "\<not> redisDown s0"
    and five: "length as = 5"
    and fresh: "rl_get s0 (at_time (hd as)) (''ratelimit:'' @ k) = None"
    and window: "list_all (\<lambda>a. at_time a < at_time (hd as) + 900 * 1000 \<and>
                               login_key (at_req a) = k) as"
    and sixth: "login_key rq = k" "now6 < at_time (hd as) + 900 * 1000"
  shows "(\<exists>r s'. checkRateLimit s now key maxAttempts windowSeconds = Inr (r, s') \<and>
            allowed r = (rl_count s now key + 1 \<le> maxAttempts) \<and>
            remaining r = max 0 (maxAttempts - (rl_count s now key + 1)) \<and>
            (0 < windowSeconds \<longrightarrow> rl_count s' now key = rl_count s now key + 1)) \<and>
         list_all (\<lambda>out. result out \<noteq> Inl rateLimitedError) (login_run cmp s0 as) \<and>
         result (login cmp (login_seq cmp s0 as) now6 uuid rq) = Inl rateLimitedError \<and>
         \<not> password_evaluated (login cmp (login_seq cmp s0 as) now6 uuid rq) \<and>
         users (world_after (login cmp (login_seq cmp s0 as) now6 uuid rq))
           = users (login_seq cmp s0 as)"
proof -
  have gen: "\<exists>r s'. checkRateLimit s now key maxAttempts windowSeconds = Inr (r, s') \<and>
            allowed r = (rl_count s now key + 1 \<le> maxAttempts) \<and>
            remaining r = max 0 (maxAttempts - (rl_count s now key + 1)) \<and>
            (0 < windowSeconds \<longrightarrow> rl_count s' now key = rl_count s now key + 1)"
    using checkRateLimit_up[OF up, of now key maxAttempts windowSeconds] by auto
  have w: "list_all (\<lambda>a. at_time a < at_time (hd as) + 900000 \<and> login_key (at_req a) = k) as"
    using window by simp
  have "list_all (\<lambda>out. result out \<noteq> Inl rateLimitedError) (login_run cmp s0 as) \<and>
         result (login cmp (login_seq cmp s0 as) now6 uuid rq) = Inl rateLimitedError \<and>
         cookies (login cmp (login_seq cmp s0 as) now6 uuid rq) = NoCookies \<and>
         events (login cmp (login_seq cmp s0 as) now6 uuid rq)
           = [SecurityLog ''Login rate limit exceeded''] \<and>
         users (world_after (login cmp (login_seq cmp s0 as) now6 uuid rq))
           = users (login_seq cmp s0 as)"
    using rate_limit_six[where cmp=cmp and s=s0 and as=as and k=k and rq=rq and now=now6
        and uuid=uuid] up0 five fresh w sixth by simp
  then show ?thesis using gen by (simp add: password_evaluated_def)
qed

theorem C6_rate_limiter_witness:
  "(\<exists>r s'. checkRateLimit world0 1000 ''k'' 5 900 = Inr (r, s') \<and>
      allowed r \<and> remaining r = 4 \<and> rl_count s' 1000 ''k'' = 1) \<and>
   list_all (\<lambda>out. result out \<noteq> Inl rateLimitedError) (login_run cmp0 world0 wrong5) \<and>
   result (login cmp0 (login_seq cmp0 world0 wrong5) 6000 ''sid1'' right_rq)
     = Inl rateLimitedError \<and>
   \<not> password_evaluated (login cmp0 (login_seq cmp0 world0 wrong5) 6000 ''sid1'' right_rq)"
proof -
  have h1: "\<not> redisDown world0" by (simp add: world0_def)
  have c0: "rl_count world0 1000 ''k'' = 0" by (simp add: rl_count_def rl_get_def world0_def)
  have h2: "length wrong5 = 5" by (simp add: wrong5_def)
  have h3: "rl_get world0 (at_time (hd wrong5)) (''ratelimit:'' @ login_key wrong_rq) = None"
    by (simp add: rl_get_def world0_def)
  have h4: "list_all (\<lambda>a. at_time a < at_time (hd wrong5) + 900 * 1000 \<and>
                         login_key (at_req a) = login_key wrong_rq) wrong5"
    by (simp add: wrong5_def wrong_at_def)
  have h5: "login_key right_rq = login_key wrong_rq" "6000 < at_time (hd wrong5) + 900 * 1000"
    by (simp_all add: login_key_def right_rq_def wrong_rq_def wrong5_def wrong_at_def)
  from C6_rate_limiter[OF h1 h1 h2 h3 h4 h5, of 1000 "''k''" 5 900 cmp0 "''sid1''"]
  show ?thesis by (simp add: c0)
qed

section \<open>Sessions\<close>

text \<open>
  C1, as the code has it. For a refresh token that verifies, whose session is in the
  registry and whose account exists and is active, one refresh answers with exactly one new
  access and refresh token, both for the freshly generated session id; in the same call
  the registry entry of the old session is deleted and the new session is stored for seven
  days. The revocation ledger is not written: the old session id is not blacklisted. A
  second refresh with the original token, though the token has not expired, fails with
  \<open>SESSION_EXPIRED\<close> (the error the code has for a revoked session) because the registry
  entry is gone, clears the cookies and changes nothing in the stores.
\<close>

theorem C1_refresh_rotation:
  assumes tok: "cookie_refresh_token rq = Some tk" "verifyRefreshToken now tk = Inr pl"
    and sess: "session_get s now (sessionId pl) = Inr (Some sd)"
    and usr: "findUniqueById s (userId pl) = Inr (Some u)" "isActive u"
    and fresh: "uuid \<noteq> sessionId pl"
    and again: "cookie_refresh_token rq2 = Some tk" "verifyRefreshToken now2 tk = Inr pl"
  shows "result (refreshToken s now uuid rq) = Inr ''Token refreshed successfully'' \<and>
         cookies (refreshToken s now uuid rq) =
           SetAuthCookies
             (generateAccessToken now \<lparr>userId = user_id u, tok_email = email u, tok_role = role u,
                                        sessionId = uuid\<rparr>)
             (generateRefreshToken now \<lparr>userId = user_id u, tok_email = email u, tok_role = role u,
                                         sessionId = uuid\<rparr>) \<and>
         sessions (world_after (refreshToken s now uuid rq)) =
           (sessions s)(sessionId pl := None,
                        uuid \<mapsto> (\<lparr>sd_userId = user_id u, createdAt = now, sd_ip = rr_ip rq,
                                   sd_userAgent = rr_userAgent rq\<rparr>, now + 604800000)) \<and>
         blacklist (world_after (refreshToken s now uuid rq)) = blacklist s \<and>
         users (world_after (refreshToken s now uuid rq)) = users s \<and>
         refreshToken (world_after (refreshToken s now uuid rq)) now2 uuid2 rq2 =
           failed sessionExpiredError ClearAuthCookies [] (world_after (refreshToken s now uuid rq))"
proof -
  have up: "\<not> redisDown s" using sess by (auto simp add: session_get_def split: if_splits)
  have ng: "tk \<noteq> Garbage []" using tok(2) by (auto simp add: verifyRefreshToken_def jwt_verify_def)
  let ?s' = "s\<lparr>sessions := (sessions s)(sessionId pl := None,
                        uuid \<mapsto> (\<lparr>sd_userId = user_id u, createdAt = now, sd_ip = rr_ip rq,
                                   sd_userAgent = rr_userAgent rq\<rparr>, now + 604800000))\<rparr>"
  have first: "refreshToken s now uuid rq =
      \<lparr>result = Inr ''Token refreshed successfully'',
       cookies = SetAuthCookies
             (generateAccessToken now \<lparr>userId = user_id u, tok_email = email u, tok_role = role u,
                                        sessionId = uuid\<rparr>)
             (generateRefreshToken now \<lparr>userId = user_id u, tok_email = email u, tok_role = role u,
                                         sessionId = uuid\<rparr>),
       events = [AuditEvent ''auth.token_refresh'' (user_id u)],
       world_after = ?s'\<rparr>"
    using tok sess usr up ng
    by (simp add: refreshToken_def rotate_def session_del_def session_setex_def Let_def)
  have gone: "session_get ?s' now2 (sessionId pl) = Inr None"
    using up fresh by (simp add: session_get_def)
  have second: "refreshToken ?s' now2 uuid2 rq2 = failed sessionExpiredError ClearAuthCookies [] ?s'"
    using again ng gone by (simp add: refreshToken_def)
  show ?thesis using second by (simp add: first)
qed

theorem C1_refresh_rotation_witness:
  "result (refreshToken world_login 2000 ''sid2'' refresh_rq1) = Inr ''Token refreshed successfully'' \<and>
   blacklist world_rotated = blacklist world_login \<and>
   refreshToken world_rotated 3000 ''sid3'' refresh_rq1
     = failed sessionExpiredError ClearAuthCookies [] world_rotated"
proof -
  let ?sd = "\<lparr>sd_userId = ''u1'', createdAt = 1000, sd_ip = Some ''10.0.0.1'', sd_userAgent = None\<rparr>"
  let ?u = "alice\<lparr>lastLoginAt := Some 1000\<rparr>"
  have h1: "cookie_refresh_token refresh_rq1 = Some refresh1"
    "verifyRefreshToken 2000 refresh1 = Inr payload1"
    by (simp_all add: refresh_rq1_def refresh1_def tok_defs)
  have h2: "session_get world_login 2000 (sessionId payload1) = Inr (Some ?sd)"
    by (simp add: sess_eval)
  have h3: "findUniqueById world_login (userId payload1) = Inr (Some ?u)" "isActive ?u"
    by (simp_all add: sess_eval)
  have h4: "''sid2'' \<noteq> sessionId payload1" by (simp add: payload1_def)
  have h5: "verifyRefreshToken 3000 refresh1 = Inr payload1"
    by (simp add: refresh1_def tok_defs)
  from C1_refresh_rotation[OF h1 h2 h3 h4 h1(1) h5, of "''sid3''"]
  show ?thesis by (simp add: world_rotated_def)
qed

text \<open>
  Against the wording of the specification: the login at 1000 issues \<open>refresh1\<close> for the session
  \<open>sid1\<close>; the refresh at 2000 succeeds, and afterwards \<open>sid1\<close> is not in the revocation
  ledger.
\<close>

theorem C1_counterexample:
  "cookies (login cmp0 world0 1000 ''sid1'' right_rq) = SetAuthCookies access1 refresh1 \<and>
   verifyRefreshToken 2000 refresh1 = Inr payload1 \<and>
   isSessionBlacklisted world_login 2000 (sessionId payload1) = Inr False \<and>
   sessions world_login (sessionId payload1) \<noteq> None \<and>
   result (refreshToken world_login 2000 ''sid2'' refresh_rq1) = Inr ''Token refreshed successfully'' \<and>
   isSessionBlacklisted world_rotated 2000 (sessionId payload1) = Inr False"
  by (simp add: sess_eval)

text \<open>
  C2, as the code has it. \<open>authenticate\<close> accepts a request exactly when its access token
  verifies, the session id of the token has no live entry in the revocation ledger, and
  the account exists, is active and is not locked. The session registry is not consulted:
  whatever the registry holds, the middleware answers the same. A token whose session is
  blacklisted is rejected with \<open>SESSION_EXPIRED\<close>, and the cookies are cleared.
\<close>

theorem C2_authenticate_acceptance:
  "(next_error (authenticate s now rq) = None \<longleftrightarrow>
      (\<exists>tk pl u. request_token rq = Some tk \<and> tk \<noteq> Garbage [] \<and>
         verifyAccessToken now tk = Inr pl \<and>
         isSessionBlacklisted s now (sessionId pl) = Inr False \<and>
         findUniqueById s (userId pl) = Inr (Some u) \<and> isActive u \<and> \<not> locked_at now u)) \<and>
   authenticate (s\<lparr>sessions := m\<rparr>) now rq = authenticate s now rq \<and>
   (request_token rq = Some tk' \<and> tk' \<noteq> Garbage [] \<and> verifyAccessToken now tk' = Inr pl' \<and>
      isSessionBlacklisted s now (sessionId pl') = Inr True \<longrightarrow>
    authenticate s now rq = rejected sessionRevokedError ClearAuthCookies [])"
  using authenticate_next[of s now rq] authenticate_try_Inr[of s now rq]
    authenticate_sessions_irrelevant[where s=s and m=m and now=now and rq=rq]
    authenticate_blacklisted[where rq=rq and tk=tk' and now=now and pl=pl' and s=s]
  by simp

theorem C2_authenticate_witness:
  "next_error (authenticate world_login 2000 auth_rq1) = None \<and>
   authenticate (world_login\<lparr>sessions := Map.empty\<rparr>) 2000 auth_rq1
     = authenticate world_login 2000 auth_rq1 \<and>
   authenticate (world_login\<lparr>blacklist := [''sid1'' \<mapsto> 9000000]\<rparr>) 2000 auth_rq1
     = rejected sessionRevokedError ClearAuthCookies []"
proof -
  let ?u = "alice\<lparr>lastLoginAt := Some 1000\<rparr>"
  let ?b = "world_login\<lparr>blacklist := [''sid1'' \<mapsto> 9000000]\<rparr>"
  have tk: "request_token auth_rq1 = Some access1" "access1 \<noteq> Garbage []"
    "verifyAccessToken 2000 access1 = Inr payload1"
    by (simp_all add: request_token_def no_token_def auth_rq1_def access1_def tok_defs)
  have ok: "isSessionBlacklisted world_login 2000 (sessionId payload1) = Inr False"
    "findUniqueById world_login (userId payload1) = Inr (Some ?u)" "isActive ?u"
    "\<not> locked_at 2000 ?u"
    by (simp_all add: sess_eval)
  have ex: "\<exists>tk pl u. request_token auth_rq1 = Some tk \<and> tk \<noteq> Garbage [] \<and>
         verifyAccessToken 2000 tk = Inr pl \<and>
         isSessionBlacklisted world_login 2000 (sessionId pl) = Inr False \<and>
         findUniqueById world_login (userId pl) = Inr (Some u) \<and> isActive u \<and> \<not> locked_at 2000 u"
    using tk ok by blast
  have bl: "isSessionBlacklisted ?b 2000 (sessionId payload1) = Inr True"
    by (simp add: sess_eval)
  from C2_authenticate_acceptance[where s=world_login and now=2000 and rq=auth_rq1
      and m=Map.empty]
    C2_authenticate_acceptance[where s="?b" and now=2000 and rq=auth_rq1 and tk'=access1
      and pl'=payload1]
  show ?thesis using ex tk bl by simp
qed

text \<open>
  Against the wording of the specification: after the login at 1000 and the refresh at 2000 the
  session \<open>sid1\<close> is no longer in the registry, and a request at 3000 with the access token
  of that session is accepted.
\<close>

theorem C2_counterexample:
  "cookies (login cmp0 world0 1000 ''sid1'' right_rq) = SetAuthCookies access1 refresh1 \<and>
   verifyAccessToken 3000 access1 = Inr payload1 \<and>
   session_get world_rotated 3000 (sessionId payload1) = Inr None \<and>
   authenticate world_rotated 3000 auth_rq1 = accepted alice_ident"
  by (simp add: sess_eval accepted_def)

text \<open>
  C5. A logout whose refresh token verifies, with the store reachable, blacklists the
  session of the token and deletes its registry entry. From then on a request that
  carries an access token of that session, issued no later than the logout with the
  configured lifetime of fifteen minutes and not yet expired, is rejected by
  \<open>authenticate\<close> with the error the code has for a revoked session (401
  \<open>SESSION_EXPIRED\<close>), and the cookies are cleared: the ledger is read on every request
  whose token verifies.
\<close>

theorem C5_logout_revokes_access_token:
  assumes out: "cookie_refresh_token lrq = Some rt" "verifyRefreshToken t0 rt = Inr pl"
      "\<not> redisDown s"
    and acc: "request_token rq = Some (Jwt j)" "verifyAccessToken t1 (Jwt j) = Inr pl'"
      "sessionId pl' = sessionId pl"
    and issued: "tok_exp j \<le> t0 div 1000 + accessToken_expiresIn"
  shows "result (logout s t0 lrq) = Inr ''Logged out successfully'' \<and>
         cookies (logout s t0 lrq) = ClearAuthCookies \<and>
         isSessionBlacklisted (world_after (logout s t0 lrq)) t1 (sessionId pl) = Inr True \<and>
         sessions (world_after (logout s t0 lrq)) (sessionId pl) = None \<and>
         authenticate (world_after (logout s t0 lrq)) t1 rq
           = rejected sessionRevokedError ClearAuthCookies []"
proof -
  have ng: "rt \<noteq> Garbage []" using out(2) by (auto simp add: verifyRefreshToken_def jwt_verify_def)
  let ?s' = "s\<lparr>blacklist := (blacklist s)(sessionId pl \<mapsto> t0 + (7 * 24 * 60 * 60) * 1000),
               sessions := (sessions s)(sessionId pl := None)\<rparr>"
  have lo: "logout s t0 lrq = \<lparr>result = Inr ''Logged out successfully'', cookies = ClearAuthCookies,
          events = [AuditEvent ''auth.logout'' (userId pl)], world_after = ?s'\<rparr>"
    using out ng
    by (simp add: logout_def logout_try_def blacklistSession_def session_del_def)
  have "t1 div 1000 < tok_exp j"
    using acc(2) by (auto simp add: verifyAccessToken_def jwt_verify_def split: if_splits)
  then have "t1 div 1000 < t0 div 1000 + 900"
    using issued by (simp add: accessToken_expiresIn_def)
  then have win: "t1 < t0 + 604800000" by (rule div_window)
  have bl: "isSessionBlacklisted ?s' t1 (sessionId pl) = Inr True"
    using out(3) win by (simp add: isSessionBlacklisted_def)
  have rej: "authenticate ?s' t1 rq = rejected sessionRevokedError ClearAuthCookies []"
    using authenticate_blacklisted[where rq=rq and tk="Jwt j" and now=t1 and pl=pl' and s="?s'"]
      acc bl by simp
  show ?thesis using bl rej by (simp add: lo)
qed

theorem C5_logout_witness:
  "verifyAccessToken 2000 access1 = Inr payload1 \<and>
   next_error (authenticate world_login 2000 auth_rq1) = None \<and>
   authenticate (world_after (logout world_login 1500 refresh_rq1)) 2000 auth_rq1
     = rejected sessionRevokedError ClearAuthCookies []"
proof -
  have h1: "cookie_refresh_token refresh_rq1 = Some refresh1"
    "verifyRefreshToken 1500 refresh1 = Inr payload1" "\<not> redisDown world_login"
    by (simp_all add: sess_eval)
  have h2: "request_token auth_rq1 = Some (Jwt access1_jwt)"
    "verifyAccessToken 2000 (Jwt access1_jwt) = Inr payload1" "sessionId payload1 = sessionId payload1"
    by (simp_all add: request_token_def no_token_def auth_rq1_def access1_def access1_jwt_def
        tok_defs payload1_def)
  have h3: "tok_exp access1_jwt \<le> 1500 div 1000 + accessToken_expiresIn"
    by (simp add: access1_jwt_def accessToken_expiresIn_def)
  have before: "verifyAccessToken 2000 access1 = Inr payload1"
    "next_error (authenticate world_login 2000 auth_rq1) = None"
    by (simp_all add: sess_eval)
  from C5_logout_revokes_access_token[OF h1 h2 h3]
  show ?thesis using before by simp
qed

section \<open>Account enumeration\<close>

text \<open>
  An unknown email address and a wrong password for a known, active account that is not
  locked are answered with the same error, and the first after a comparison of the
  password with the constant hash of the source.
\<close>

lemma login_unknown_email:
  assumes "\<not> redisDown s" "\<not> dbDown s" "rl_count s now (login_key rq) + 1 \<le> 5"
    "account_of s (body_email rq) = None"
  shows "result (login cmp s now uuid rq) = Inl genericError \<and>
         cookies (login cmp s now uuid rq) = NoCookies \<and>
         events (login cmp s now uuid rq) = [BcryptCompare (body_password rq) dummy_hash] \<and>
         users (world_after (login cmp s now uuid rq)) = users s"
proof -
  obtain r s1 where g: "checkRateLimit s now (login_key rq) 5 (15 * 60) = Inr (r, s1)"
    "allowed r = (rl_count s now (login_key rq) + 1 \<le> 5)"
    "users s1 = users s" "dbDown s1 = dbDown s"
    using login_gate[OF assms(1), where now=now and rq=rq] by metis
  have f: "findUniqueByEmail s1 (body_email rq) = Inr None"
    using g assms by (simp add: findUniqueByEmail_def account_of_def)
  show ?thesis using g(2,3) assms(3) f by (simp add: login_unfold[OF g(1)] failed_def)
qed

text \<open>
  C7 at a request for an address that has no account. The error is the generic one, as
  for the wrong password of the account of the example, and one comparison is made,
  against the constant of the source. That constant has 46 characters; a bcrypt hash has
  60, and the library answers false for any other length without deriving a key, so the
  comparison does not cost what the comparison with the hash of an account costs.
\<close>

theorem C7_dummy_comparison:
  "result (login cmp0 world0 1000 ''sid1'' unknown_rq) = Inl genericError \<and>
   result (login cmp0 world0 1000 ''sid1'' wrong_rq) = Inl genericError \<and>
   events (login cmp0 world0 1000 ''sid1'' unknown_rq) = [BcryptCompare ''guess'' dummy_hash] \<and>
   events (login cmp0 world0 1000 ''sid1'' wrong_rq) =
     [BcryptCompare ''guess'' (passwordHash alice), SecurityLog ''Failed login attempt'',
      AuditEvent ''auth.failed_login'' ''u1''] \<and>
   length dummy_hash = 46"
  by (simp add: eval_defs genericError_def dummy_hash_def)

section \<open>Login requests at the same time\<close>

text \<open>
  C9, as the code has it. The counter is not incremented in the store: the handler reads
  the account row, and later writes the counter it read plus one, whatever the row holds
  by then (last conjunct: a request that read a fresh row and whose password is wrong
  writes 1 over any current row of the account).
  So the lockout is exact for requests handled one after another. Both stores answer; the
  account is fresh (active, not locked, counter zero); no rate-limit counter is pending in
  the store, so that the rate limiter lets the first five requests through. Then more than
  \<open>maxLoginAttempts\<close> wrong-password requests for the account, all within one lockout
  duration, take the account from not locked to locked exactly once, at the fifth request,
  and leave the counter at the maximum, which the number of requests exceeds. (Without the
  condition on the rate limiter the run may end with no lockout at all: a counter left by
  earlier requests of the client makes the limiter stop the run before the fifth failure.)
\<close>

theorem C9_sequential_lockout:
  assumes stores: "\<not> redisDown s" "\<not> dbDown s"
    and acct: "account_of s (email u) = Some u" "isActive u" "lockedUntil u = None"
      "failedLoginAttempts u = 0"
    and fresh: "rl_bound s 0"
    and many: "maxLoginAttempts < int (length as)" "wrong_attempts cmp u as"
    and together: "list_all (\<lambda>a. T \<le> at_time a \<and> at_time a < T + lockoutDuration) as"
    and stale: "\<not> dbDown s'" "account_of s' (body_email rq) = Some cur" "user_id cur = user_id u"
      "\<not> cmp (body_password rq) (passwordHash u)"
  shows "lock_transitions cmp s (email u) as = 1 \<and>
         account_of (login_seq cmp s as) (email u) =
           Some (u\<lparr>failedLoginAttempts := maxLoginAttempts,
                   lockedUntil := Some (at_time (as ! 4) + lockoutDuration)\<rparr>) \<and>
         maxLoginAttempts \<le> int (length as) \<and>
         account_of (world_after (login_known cmp s' now uuid rq ip u)) (body_email rq) =
           Some (cur\<lparr>failedLoginAttempts := 1, lockedUntil := None\<rparr>)"
proof -
  let ?xs = "take 5 as" and ?ys = "drop 5 as"
  have len: "5 < length as" using many(1) by (simp add: maxLoginAttempts_def)
  have split: "as = ?xs @ ?ys" by simp
  have lx: "length ?xs = 5" using len by simp
  have nex: "?xs \<noteq> []" using lx by auto
  have wx: "wrong_attempts cmp u ?xs"
    using many(2) by (simp add: wrong_attempts_def list_all_iff) (meson in_set_takeD)
  have "last ?xs = ?xs ! (length ?xs - 1)" by (rule last_conv_nth[OF nex])
  also have "\<dots> = ?xs ! 4" by (simp only: lx) simp
  also have "\<dots> = as ! 4" by simp
  finally have lastx: "last ?xs = as ! 4" .
  let ?s5 = "login_seq cmp s ?xs"
  let ?L = "at_time (as ! 4) + lockoutDuration"
  let ?u5 = "u\<lparr>failedLoginAttempts := 5, lockedUntil := Some ?L\<rparr>"
  have run: "account_of ?s5 (email u) = Some ?u5 \<and>
         list_all (\<lambda>out. result out = Inl genericError) (login_run cmp s ?xs) \<and>
         \<not> redisDown ?s5 \<and> \<not> dbDown ?s5"
    using failed_run[where cmp=cmp and s=s and u=u and j=0 and as="?xs"]
      stores acct fresh lx nex wx lastx by simp
  have tr5: "lock_transitions cmp s (email u) ?xs = 1"
    using failed_run_transitions[where cmp=cmp and s=s and u=u and j=0 and as="?xs"]
      stores acct fresh lx nex wx by simp
  have t4: "T \<le> at_time (as ! 4)"
    using together len by (simp add: list_all_length)
  have wy: "list_all (\<lambda>a. at_time a < ?L \<and> body_email (at_req a) = email u) ?ys"
  proof -
    have "\<forall>a\<in>set as. at_time a < ?L \<and> body_email (at_req a) = email u"
      using together many(2) t4 by (auto simp add: list_all_iff wrong_attempts_def)
    then show ?thesis by (simp add: list_all_iff) (meson in_set_dropD)
  qed
  have rest: "users (login_seq cmp ?s5 ?ys) = users ?s5 \<and>
              lock_transitions cmp ?s5 (email u) ?ys = 0"
    using locked_run[where cmp=cmp and s="?s5" and e="email u" and u="?u5" and L="?L" and as="?ys"]
      run wy by simp
  have fin: "login_seq cmp s as = login_seq cmp ?s5 ?ys"
    using login_seq_append[of cmp s ?xs ?ys] by simp
  have tr: "lock_transitions cmp s (email u) as = 1"
    using lock_transitions_append[of cmp s "email u" ?xs ?ys] tr5 rest by simp
  have acc: "account_of (login_seq cmp s as) (email u) = Some ?u5"
    using rest run by (simp add: fin account_of_def)
  have nl: "\<not> locked_at now u" using acct(3) by (simp add: locked_at_def)
  have lost: "account_of (world_after (login_known cmp s' now uuid rq ip u)) (body_email rq) =
           Some (cur\<lparr>failedLoginAttempts := 1, lockedUntil := None\<rparr>)"
    using known_stale_write[where cmp=cmp and s=s' and rq=rq and cur=cur and u=u and now=now
        and uuid=uuid and ip=ip] stale nl acct(2,4)
    by (simp add: maxLoginAttempts_def)
  show ?thesis using tr acc lost many(1) by (simp add: maxLoginAttempts_def)
qed

theorem C9_sequential_witness:
  "lock_transitions cmp0 world0 ''alice@example.com'' wrong6 = 1 \<and>
   account_of (login_seq cmp0 world0 wrong6) ''alice@example.com''
     = Some (alice\<lparr>failedLoginAttempts := 5, lockedUntil := Some 1801000\<rparr>) \<and>
   account_of (world_after (login_known cmp0 world0 1000 ''x'' wrong_rq ''10.0.0.1'' alice))
       ''alice@example.com''
     = Some (alice\<lparr>failedLoginAttempts := 1\<rparr>)"
proof -
  have h1: "\<not> redisDown world0" "\<not> dbDown world0" by (simp_all add: world0_def)
  have h2: "account_of world0 (email alice) = Some alice" "isActive alice"
    "lockedUntil alice = None" "failedLoginAttempts alice = 0"
    by (simp_all add: account_of_def world0_def alice_def)
  have h3: "rl_bound world0 0" by (simp add: rl_bound_def world0_def)
  have h4: "maxLoginAttempts < int (length wrong6)" "wrong_attempts cmp0 alice wrong6"
    by (simp_all add: wrong6_def maxLoginAttempts_def wrong_attempts_def wrong_at_def wrong_rq_def
        cmp0_def alice_def)
  have h5: "list_all (\<lambda>a. 1000 \<le> at_time a \<and> at_time a < 1000 + lockoutDuration) wrong6"
    by (simp add: wrong6_def wrong_at_def lockoutDuration_def)
  have h6: "account_of world0 (body_email wrong_rq) = Some alice" "user_id alice = user_id alice"
    "\<not> cmp0 (body_password wrong_rq) (passwordHash alice)"
    by (simp_all add: account_of_def world0_def alice_def wrong_rq_def cmp0_def)
  from C9_sequential_lockout[where cmp=cmp0 and s=world0 and u=alice and as=wrong6 and T=1000
      and s'=world0 and rq=wrong_rq and cur=alice and now=1000 and uuid="''x''"
      and ip="''10.0.0.1''"] h1 h2 h3 h4 h5 h6
  show ?thesis
    by (simp add: alice_def wrong6_def wrong_at_def wrong_rq_def maxLoginAttempts_def
        lockoutDuration_def)
qed

text \<open>
  Against the wording of the specification, for requests that overlap: of six wrong-password
  requests of one client at the same instant the rate limiter stops the sixth; the other
  five have all read the fresh row before any of them writes, each writes the counter 1,
  and the account is not locked at all.
\<close>

theorem C9_counterexample:
  "length wrong6 = 6 \<and>
   account_of (login_overlapped cmp0 world0 wrong6) ''alice@example.com''
     = Some (alice\<lparr>failedLoginAttempts := 1\<rparr>) \<and>
   \<not> is_locked (login_overlapped cmp0 world0 wrong6) 1000 ''alice@example.com''"
  by code_simp

section \<open>Optional authentication\<close>

text \<open>
  C10. \<open>optionalAuth\<close> never rejects: whatever the request and the state of the stores,
  also when a store refuses the call, it hands a plain \<open>next()\<close> on. It attaches an
  identity exactly when the access-token cookie verifies, the session of the token is not
  blacklisted, and the account exists and is active; the identity is that of the account.
\<close>

theorem C10_optionalAuth_never_rejects:
  "next_error (optionalAuth s now rq) = None \<and>
   (req_user (optionalAuth s now rq) = Some ident \<longleftrightarrow>
      (\<exists>tk pl u. cookie_access_token rq = Some tk \<and> tk \<noteq> Garbage [] \<and>
         verifyAccessToken now tk = Inr pl \<and>
         isSessionBlacklisted s now (sessionId pl) = Inr False \<and>
         findUniqueById s (userId pl) = Inr (Some u) \<and> isActive u \<and>
         ident = \<lparr>ident_id = user_id u, ident_email = email u, ident_role = role u\<rparr>))"
  by (auto simp add: optionalAuth_def Let_def split: option.splits sum.splits bool.splits)

theorem C10_optionalAuth_witness:
  "next_error (optionalAuth world0 2000 \<lparr>cookie_access_token = Some access1, authorization = None\<rparr>) = None \<and>
   req_user (optionalAuth world0 2000 \<lparr>cookie_access_token = Some access1, authorization = None\<rparr>)
     = Some alice_ident \<and>
   (\<exists>tk pl u. Some access1 = Some tk \<and> tk \<noteq> Garbage [] \<and>
      verifyAccessToken 2000 tk = Inr pl \<and>
      isSessionBlacklisted world0 2000 (sessionId pl) = Inr False \<and>
      findUniqueById world0 (userId pl) = Inr (Some u) \<and> isActive u \<and>
      alice_ident = \<lparr>ident_id = user_id u, ident_email = email u, ident_role = role u\<rparr>)"
proof -
  have att: "req_user (optionalAuth world0 2000 \<lparr>cookie_access_token = Some access1, authorization = None\<rparr>)
               = Some alice_ident"
    by (simp add: optionalAuth_def Let_def verifyAccessToken_def jwt_verify_def access1_def
        generateAccessToken_def payload1_def accessToken_expiresIn_def jwt_issuer_def
        jwt_audience_def isSessionBlacklisted_def findUniqueById_def world0_def alice_def
        alice_ident_def)
  from C10_optionalAuth_never_rejects
         [of world0 2000 "\<lparr>cookie_access_token = Some access1, authorization = None\<rparr>" alice_ident]
  show ?thesis using att by simp
qed

end
